theory Spec2Isabelle
  imports Main
begin

section \<open>The ACME client registry of pkg/acme/accounts/registry.go\<close>

text \<open>
  The registry maps the UID of an issuer to an ACME client together with the
  options the client was built from. The Go code mutates a map behind a
  reader/writer lock and allocates client objects; here every method takes the
  state of the program and returns the new one. A method that holds the lock of
  the registry from its first to its last statement is one function of the
  state.
\<close>

subsection \<open>Data\<close>

text \<open>
  \<^verbatim>\<open>cmacme.ACMEIssuer\<close>: the package reads the fields \<^verbatim>\<open>Server\<close> and
  \<^verbatim>\<open>SkipTLSVerify\<close> only; the other fields of the struct are the extension of
  the record.
\<close>

record ACMEIssuer =
  Server :: string
  SkipTLSVerify :: bool

text \<open>
  \<^verbatim>\<open>rsa.PublicKey\<close> and \<^verbatim>\<open>rsa.PrivateKey\<close> (which embeds the public key). A
  \<^verbatim>\<open>*big.Int\<close> is an optional integer, \<open>None\<close> being the nil pointer.
\<close>

record PublicKey =
  N :: "int option"
  E :: int

record PrivateKey = PublicKey +
  D :: "int option"
  Primes :: "int option list"

text \<open>Line 36: the sentinel error of \<^verbatim>\<open>GetClient\<close>; and the run-time panic of a nil dereference.\<close>

datatype error = ErrNotFound | NilPointerDereference

text \<open>Lines 85-91.\<close>

record stableOptions =
  serverURL :: string
  skipVerifyTLS :: bool
  issuerUID :: string
  publicKey :: string
  exponent :: int

text \<open>
  The \<^verbatim>\<open>http.Client\<close> of lines 202-218, durations in seconds; the proxy
  function and the instrumentation of \<^verbatim>\<open>acmecl.NewInstrumentedClient\<close> are
  the same for every client and are left out.
\<close>

record httpClient =
  DialTimeout :: nat
  DialKeepAlive :: nat
  InsecureSkipVerify :: bool
  MaxIdleConns :: nat
  IdleConnTimeout :: nat
  TLSHandshakeTimeout :: nat
  ExpectContinueTimeout :: nat
  Timeout :: nat

text \<open>
  The \<^verbatim>\<open>acmeapi.Client\<close> of lines 188-193. The key is the pointer passed in;
  nobody writes to a key after passing it, so the object holds the value of the
  key, private part included.
\<close>

record acmeClient =
  Key :: "PrivateKey option"
  HTTPClient :: httpClient
  DirectoryURL :: string
  UserAgent :: string

text \<open>
  An \<^verbatim>\<open>acmecl.Interface\<close> value is a pointer to a client object: the index of
  the object among the objects allocated so far.
\<close>

type_synonym addr = nat

text \<open>Lines 111-115.\<close>

record clientWithMeta =
  Interface :: addr
  stableOptions :: stableOptions

text \<open>
  The state: the map \<^verbatim>\<open>r.clients\<close> of the registry (lines 75-80), the client
  objects allocated by \<^verbatim>\<open>NewClient\<close> in the order of their allocation, the
  maps allocated by \<^verbatim>\<open>ListClients\<close> in the order of their allocation, and the
  package variable \<^verbatim>\<open>util.CertManagerUserAgent\<close>.
\<close>

record world =
  clients :: "string \<rightharpoonup> clientWithMeta"
  acmeClients :: "acmeClient list"
  ifaceMaps :: "(string \<rightharpoonup> addr) list"
  CertManagerUserAgent :: string

subsection \<open>The fingerprint\<close>

text \<open>
  \<^verbatim>\<open>nat.bytes\<close> of math/big: the big-endian bytes of a magnitude, without
  leading zero bytes.
\<close>

fun bytes :: "nat \<Rightarrow> nat list" where
  "bytes n = (if n = 0 then [] else bytes (n div 256) @ [n mod 256])"

declare bytes.simps [simp del]

text \<open>
  \<^verbatim>\<open>(*big.Int).GobEncode\<close> of math/big: nothing for the nil pointer, else one
  byte holding the version 1 and the sign bit, then the bytes of the magnitude.
\<close>

definition GobEncode :: "int option \<Rightarrow> string" where
  "GobEncode x =
     (case x of
        None \<Rightarrow> []
      | Some i \<Rightarrow> char_of (if i < 0 then 3 else 2 :: nat) # map char_of (bytes (nat \<bar>i\<bar>)))"

text \<open>Lines 93-95: the comparison of two structs with \<^verbatim>\<open>==\<close>.\<close>

definition equalTo :: "stableOptions \<Rightarrow> stableOptions \<Rightarrow> bool" where
  "equalTo c c2 = (c = c2)"

text \<open>
  Lines 97-107. Reading \<^verbatim>\<open>privateKey.PublicKey.N\<close> through a nil
  \<^verbatim>\<open>privateKey\<close> panics; the error of \<^verbatim>\<open>GobEncode\<close> is dropped.
\<close>

definition newStableOptions ::
  "string \<Rightarrow> 'a ACMEIssuer_scheme \<Rightarrow> PrivateKey option \<Rightarrow> error + stableOptions" where
  "newStableOptions uid config privateKey =
     (case privateKey of
        None \<Rightarrow> Inl NilPointerDereference
      | Some k \<Rightarrow>
          Inr \<lparr>serverURL = Server config,
               skipVerifyTLS = SkipTLSVerify config,
               issuerUID = uid,
               publicKey = GobEncode (N k),
               exponent = E k\<rparr>)"

subsection \<open>Building a client\<close>

text \<open>Lines 202-218.\<close>

definition buildHTTPClient :: "bool \<Rightarrow> httpClient" where
  "buildHTTPClient skipTLSVerify =
     \<lparr>DialTimeout = 30,
      DialKeepAlive = 30,
      InsecureSkipVerify = skipTLSVerify,
      MaxIdleConns = 100,
      IdleConnTimeout = 90,
      TLSHandshakeTimeout = 10,
      ExpectContinueTimeout = 1,
      Timeout = 30\<rparr>"

text \<open>The object that lines 188-193 fill in.\<close>

definition clientObject ::
  "'a ACMEIssuer_scheme \<Rightarrow> PrivateKey option \<Rightarrow> string \<Rightarrow> acmeClient" where
  "clientObject config privateKey ua =
     \<lparr>Key = privateKey,
      HTTPClient = buildHTTPClient (SkipTLSVerify config),
      DirectoryURL = Server config,
      UserAgent = ua\<rparr>"

text \<open>
  Lines 187-194: \<^verbatim>\<open>NewClient\<close> allocates the object and returns the pointer
  to it.
\<close>

definition NewClient ::
  "'a ACMEIssuer_scheme \<Rightarrow> PrivateKey option \<Rightarrow> world \<Rightarrow> addr \<times> world" where
  "NewClient config privateKey w =
     (length (acmeClients w),
      w\<lparr>acmeClients :=
          acmeClients w @ [clientObject config privateKey (CertManagerUserAgent w)]\<rparr>)"

subsection \<open>The methods of the registry\<close>

text \<open>Lines 68-72: a registry with an empty map.\<close>

definition NewDefaultRegistry :: "world \<Rightarrow> world" where
  "NewDefaultRegistry w = w\<lparr>clients := Map.empty\<rparr>"

text \<open>
  Lines 129-146. The result is a pair: what the caller sees (the method returns
  nothing, or the panic unwinds through it, the deferred unlock running), and the
  state left behind.
\<close>

definition ensureClient ::
  "string \<Rightarrow> 'a ACMEIssuer_scheme \<Rightarrow> PrivateKey option \<Rightarrow> world \<Rightarrow> (error + unit) \<times> world" where
  "ensureClient uid config privateKey w =
     (case newStableOptions uid config privateKey of
        Inl e \<Rightarrow> (Inl e, w)
      | Inr newOpts \<Rightarrow>
          if (case clients w uid of
                Some meta \<Rightarrow> equalTo (stableOptions meta) newOpts
              | None \<Rightarrow> False)
          then (Inr (), w)
          else
            (let (c, w') = NewClient config privateKey w
             in (Inr (),
                 w'\<lparr>clients :=
                      (clients w')(uid \<mapsto> \<lparr>Interface = c, stableOptions = newOpts\<rparr>)\<rparr>)))"

text \<open>Lines 119-122.\<close>

definition AddClient ::
  "string \<Rightarrow> 'a ACMEIssuer_scheme \<Rightarrow> PrivateKey option \<Rightarrow> world \<Rightarrow> (error + unit) \<times> world" where
  "AddClient uid config privateKey w = ensureClient uid config privateKey w"

text \<open>Lines 151-159: the method reads the state and leaves it as it is.\<close>

definition GetClient :: "string \<Rightarrow> world \<Rightarrow> error + addr" where
  "GetClient uid w =
     (case clients w uid of
        Some c \<Rightarrow> Inr (Interface c)
      | None \<Rightarrow> Inl ErrNotFound)"

text \<open>Lines 163-170.\<close>

definition RemoveClient :: "string \<Rightarrow> world \<Rightarrow> world" where
  "RemoveClient uid w =
     (case clients w uid of
        None \<Rightarrow> w
      | Some _ \<Rightarrow> w\<lparr>clients := (clients w)(uid := None)\<rparr>)"

text \<open>
  Lines 176-185: a new map is allocated and filled from \<^verbatim>\<open>r.clients\<close>, one
  key after the other (a Go map holds a key once, so the order of the loop does not
  show in the result); the pointer to the new map is returned.
\<close>

definition ListClients :: "world \<Rightarrow> nat \<times> world" where
  "ListClients w =
     (length (ifaceMaps w),
      w\<lparr>ifaceMaps := ifaceMaps w @ [\<lambda>k. map_option Interface (clients w k)]\<rparr>)"

subsection \<open>Sequences of calls and the invariant of the registry\<close>

text \<open>
  A caller of the registry makes one of four calls. A panic of \<^verbatim>\<open>AddClient\<close>
  is seen by the caller; the state it leaves behind is the state the next call
  starts from.
\<close>

datatype 'a call =
    CallAddClient string "'a ACMEIssuer_scheme" "PrivateKey option"
  | CallRemoveClient string
  | CallGetClient string
  | CallListClients

fun perform :: "'a call \<Rightarrow> world \<Rightarrow> world" where
  "perform (CallAddClient uid config privateKey) w = snd (AddClient uid config privateKey w)"
| "perform (CallRemoveClient uid) w = RemoveClient uid w"
| "perform (CallGetClient uid) w = w"
| "perform CallListClients w = snd (ListClients w)"

fun calls :: "'a call list \<Rightarrow> world \<Rightarrow> world" where
  "calls [] w = w"
| "calls (c # cs) w = calls cs (perform c w)"

text \<open>
  The invariant: an entry is stored under the UID its options name, its client
  has been allocated, and the client is the object \<^verbatim>\<open>NewClient\<close> builds from a
  configuration and a key whose options, for that UID, are the stored ones.
\<close>

definition registry_invariant :: "world \<Rightarrow> bool" where
  "registry_invariant w \<longleftrightarrow>
     (\<forall>uid meta. clients w uid = Some meta \<longrightarrow>
        issuerUID (stableOptions meta) = uid \<and>
        Interface meta < length (acmeClients w) \<and>
        (\<exists>(config :: ACMEIssuer) privateKey ua.
           acmeClients w ! Interface meta = clientObject config privateKey ua \<and>
           newStableOptions uid config privateKey = Inr (stableOptions meta)))"

text \<open>
  What a call of \<^verbatim>\<open>ensureClient\<close> looks for: an entry for the UID with the
  given options. And what it does when there is none: the state after lines
  142-145.
\<close>

definition stored :: "world \<Rightarrow> string \<Rightarrow> stableOptions \<Rightarrow> bool" where
  "stored w uid opts \<longleftrightarrow> (\<exists>meta. clients w uid = Some meta \<and> stableOptions meta = opts)"

definition rebuilt ::
  "string \<Rightarrow> 'a ACMEIssuer_scheme \<Rightarrow> PrivateKey option \<Rightarrow> stableOptions \<Rightarrow> world \<Rightarrow> world" where
  "rebuilt uid config privateKey newOpts w =
     w\<lparr>acmeClients := acmeClients w @ [clientObject config privateKey (CertManagerUserAgent w)],
       clients := (clients w)(uid \<mapsto>
         \<lparr>Interface = length (acmeClients w), stableOptions = newOpts\<rparr>)\<rparr>"

subsection \<open>Threads calling \<^verbatim>\<open>ensureClient\<close> at the same time\<close>

text \<open>
  The statements of lines 133-146, one step each. A thread is at the call of
  \<^verbatim>\<open>r.lock.Lock()\<close> (line 133), at the call of \<^verbatim>\<open>newStableOptions\<close>
  (line 135), at the comparison of line 137, at the call of \<^verbatim>\<open>NewClient\<close>
  (line 143), at the assignment to \<^verbatim>\<open>r.clients[uid]\<close> (line 142), at the
  deferred \<^verbatim>\<open>r.lock.Unlock()\<close> (line 134), which also runs when the method
  panics, or back in its caller.
\<close>

datatype pc =
    AtLock
  | AtNewStableOptions
  | AtCompare stableOptions
  | AtNewClient stableOptions
  | AtStore addr stableOptions
  | AtUnlock "error + unit"
  | Returned "error + unit"

text \<open>
  One step of a thread, from the lock (held by a writer or free) and the state.
  \<open>None\<close>: the thread cannot move, since it waits for the lock or has
  returned. Only writers take part, so the \<^verbatim>\<open>sync.RWMutex\<close> is held or free.
\<close>

fun threadStep ::
  "string \<Rightarrow> 'a ACMEIssuer_scheme \<Rightarrow> PrivateKey option \<Rightarrow> pc \<Rightarrow> bool \<Rightarrow> world \<Rightarrow>
     (pc \<times> bool \<times> world) option" where
  "threadStep uid config privateKey AtLock locked w =
     (if locked then None else Some (AtNewStableOptions, True, w))"
| "threadStep uid config privateKey AtNewStableOptions locked w =
     (case newStableOptions uid config privateKey of
        Inl e \<Rightarrow> Some (AtUnlock (Inl e), locked, w)
      | Inr newOpts \<Rightarrow> Some (AtCompare newOpts, locked, w))"
| "threadStep uid config privateKey (AtCompare newOpts) locked w =
     (if (case clients w uid of
            Some meta \<Rightarrow> equalTo (stableOptions meta) newOpts
          | None \<Rightarrow> False)
      then Some (AtUnlock (Inr ()), locked, w)
      else Some (AtNewClient newOpts, locked, w))"
| "threadStep uid config privateKey (AtNewClient newOpts) locked w =
     (let (c, w') = NewClient config privateKey w in Some (AtStore c newOpts, locked, w'))"
| "threadStep uid config privateKey (AtStore c newOpts) locked w =
     Some (AtUnlock (Inr ()), locked,
           w\<lparr>clients := (clients w)(uid \<mapsto> \<lparr>Interface = c, stableOptions = newOpts\<rparr>)\<rparr>)"
| "threadStep uid config privateKey (AtUnlock r) locked w = Some (Returned r, False, w)"
| "threadStep uid config privateKey (Returned r) locked w = None"

text \<open>
  The system: the lock, the state, and where each thread is. All threads were
  called with the same arguments. The scheduler picks thread \<open>t\<close>; a thread
  that cannot move stays where it is.
\<close>

type_synonym system = "bool \<times> world \<times> pc list"

fun schedule ::
  "string \<Rightarrow> 'a ACMEIssuer_scheme \<Rightarrow> PrivateKey option \<Rightarrow> nat \<Rightarrow> system \<Rightarrow> system" where
  "schedule uid config privateKey t (locked, w, pcs) =
     (if t < length pcs then
        (case threadStep uid config privateKey (pcs ! t) locked w of
           None \<Rightarrow> (locked, w, pcs)
         | Some (pc', locked', w') \<Rightarrow> (locked', w', pcs[t := pc']))
      else (locked, w, pcs))"

text \<open>An interleaving: the list of the threads picked, in this order.\<close>

fun interleave ::
  "string \<Rightarrow> 'a ACMEIssuer_scheme \<Rightarrow> PrivateKey option \<Rightarrow> nat list \<Rightarrow> system \<Rightarrow> system" where
  "interleave uid config privateKey [] s = s"
| "interleave uid config privateKey (t # ts) s =
     interleave uid config privateKey ts (schedule uid config privateKey t s)"

fun returned :: "pc \<Rightarrow> bool" where
  "returned (Returned r) = True"
| "returned _ = False"

text \<open>A thread is in the critical section from taking the lock to releasing it.\<close>

fun critical :: "pc \<Rightarrow> bool" where
  "critical AtLock = False"
| "critical (Returned r) = False"
| "critical _ = True"

text \<open>
  The invariant of the system, for threads started in the state \<open>w0\<close>. A
  thread outside the critical section waits for the lock or has returned what one
  call in \<open>w0\<close> returns. The thread inside has changed the state as far as its
  statements say. With the lock free, the state is \<open>w0\<close> until a thread has
  returned, and the state after one call from then on.
\<close>

definition idle :: "error + unit \<Rightarrow> pc \<Rightarrow> bool" where
  "idle r pc \<longleftrightarrow> pc = AtLock \<or> pc = Returned r"

definition others_idle :: "error + unit \<Rightarrow> nat \<Rightarrow> pc list \<Rightarrow> bool" where
  "others_idle r t pcs \<longleftrightarrow> (\<forall>t' < length pcs. t' \<noteq> t \<longrightarrow> idle r (pcs ! t'))"

definition others_returned :: "nat \<Rightarrow> pc list \<Rightarrow> bool" where
  "others_returned t pcs \<longleftrightarrow> (\<exists>t' < length pcs. t' \<noteq> t \<and> returned (pcs ! t'))"

definition some_returned :: "pc list \<Rightarrow> bool" where
  "some_returned pcs \<longleftrightarrow> (\<exists>t < length pcs. returned (pcs ! t))"

fun critical_invariant ::
  "string \<Rightarrow> 'a ACMEIssuer_scheme \<Rightarrow> PrivateKey option \<Rightarrow> world \<Rightarrow> bool \<Rightarrow> pc \<Rightarrow> world \<Rightarrow> bool"
  where
  "critical_invariant uid config privateKey w0 fin AtLock w = False"
| "critical_invariant uid config privateKey w0 fin AtNewStableOptions w =
     (w = (if fin then snd (ensureClient uid config privateKey w0) else w0))"
| "critical_invariant uid config privateKey w0 fin (AtCompare newOpts) w =
     (newStableOptions uid config privateKey = Inr newOpts \<and>
      w = (if fin then snd (ensureClient uid config privateKey w0) else w0))"
| "critical_invariant uid config privateKey w0 fin (AtNewClient newOpts) w =
     (newStableOptions uid config privateKey = Inr newOpts \<and> \<not> fin \<and>
      \<not> stored w0 uid newOpts \<and> w = w0)"
| "critical_invariant uid config privateKey w0 fin (AtStore c newOpts) w =
     (newStableOptions uid config privateKey = Inr newOpts \<and> \<not> fin \<and>
      \<not> stored w0 uid newOpts \<and> (c, w) = NewClient config privateKey w0)"
| "critical_invariant uid config privateKey w0 fin (AtUnlock r) w =
     (r = fst (ensureClient uid config privateKey w0) \<and>
      w = snd (ensureClient uid config privateKey w0))"
| "critical_invariant uid config privateKey w0 fin (Returned r) w = False"

fun system_invariant ::
  "string \<Rightarrow> 'a ACMEIssuer_scheme \<Rightarrow> PrivateKey option \<Rightarrow> world \<Rightarrow> system \<Rightarrow> bool" where
  "system_invariant uid config privateKey w0 (locked, w, pcs) =
     (if locked then
        (\<exists>t < length pcs.
           others_idle (fst (ensureClient uid config privateKey w0)) t pcs \<and>
           critical_invariant uid config privateKey w0 (others_returned t pcs) (pcs ! t) w)
      else
        (\<forall>t < length pcs. idle (fst (ensureClient uid config privateKey w0)) (pcs ! t)) \<and>
        w = (if some_returned pcs then snd (ensureClient uid config privateKey w0) else w0))"

subsection \<open>Example values\<close>

definition exampleConfig :: ACMEIssuer where
  "exampleConfig = \<lparr>Server = ''https://acme.example/directory'', SkipTLSVerify = False\<rparr>"

definition exampleConfig' :: ACMEIssuer where
  "exampleConfig' = \<lparr>Server = ''https://acme.example/directory'', SkipTLSVerify = True\<rparr>"

text \<open>
  Two keys with the public key (3233, 17), 3233 being 61 times 53: both 413 and
  2753 invert 17 modulo 780, the least common multiple of 60 and 52.
\<close>

definition exampleKey :: PrivateKey where
  "exampleKey = \<lparr>N = Some 3233, E = 17, D = Some 413, Primes = [Some 61, Some 53]\<rparr>"

definition exampleKey' :: PrivateKey where
  "exampleKey' = \<lparr>N = Some 3233, E = 17, D = Some 2753, Primes = [Some 61, Some 53]\<rparr>"

definition emptyWorld :: world where
  "emptyWorld =
     \<lparr>clients = Map.empty, acmeClients = [], ifaceMaps = [],
      CertManagerUserAgent = ''jetstack-cert-manager''\<rparr>"

text \<open>The registry after \<^verbatim>\<open>AddClient\<close> for the issuer \<open>a\<close>, and after a second
  call that sets the flag \<^verbatim>\<open>SkipTLSVerify\<close>.\<close>

definition exampleWorld1 :: world where
  "exampleWorld1 = snd (AddClient ''a'' exampleConfig (Some exampleKey) emptyWorld)"

definition exampleWorld2 :: world where
  "exampleWorld2 = snd (AddClient ''a'' exampleConfig' (Some exampleKey) exampleWorld1)"

section \<open>Properties\<close>

subsection \<open>The three ways through \<^verbatim>\<open>ensureClient\<close>\<close>

lemma clientObject_truncate:
  "clientObject (ACMEIssuer.truncate config) privateKey ua = clientObject config privateKey ua"
  by (simp add: clientObject_def ACMEIssuer.truncate_def)

lemma newStableOptions_truncate:
  "newStableOptions uid (ACMEIssuer.truncate config) privateKey =
   newStableOptions uid config privateKey"
  by (simp add: newStableOptions_def ACMEIssuer.truncate_def split: option.splits)

lemma newStableOptions_issuerUID:
  "newStableOptions uid config privateKey = Inr opts \<Longrightarrow> issuerUID opts = uid"
  by (auto simp: newStableOptions_def split: option.splits)

lemma newStableOptions_Inl:
  "newStableOptions uid config privateKey = Inl e \<longleftrightarrow>
   privateKey = None \<and> e = NilPointerDereference"
  by (auto simp: newStableOptions_def split: option.splits)

lemma ensureClient_panic:
  "newStableOptions uid config privateKey = Inl e \<Longrightarrow>
   ensureClient uid config privateKey w = (Inl e, w)"
  by (simp add: ensureClient_def)

lemma ensureClient_fast:
  "newStableOptions uid config privateKey = Inr newOpts \<Longrightarrow> stored w uid newOpts \<Longrightarrow>
   ensureClient uid config privateKey w = (Inr (), w)"
  by (auto simp: ensureClient_def stored_def equalTo_def)

lemma ensureClient_slow:
  "newStableOptions uid config privateKey = Inr newOpts \<Longrightarrow> \<not> stored w uid newOpts \<Longrightarrow>
   ensureClient uid config privateKey w = (Inr (), rebuilt uid config privateKey newOpts w)"
  by (auto simp: ensureClient_def stored_def equalTo_def NewClient_def rebuilt_def
      split: option.splits)

lemma stored_rebuilt: "stored (rebuilt uid config privateKey newOpts w) uid newOpts"
  by (simp add: stored_def rebuilt_def)

lemma ensureClient_stored:
  assumes "newStableOptions uid config privateKey = Inr newOpts"
  shows "stored (snd (ensureClient uid config privateKey w)) uid newOpts"
proof (cases "stored w uid newOpts")
  case True
  with assms show ?thesis by (simp add: ensureClient_fast)
next
  case False
  with assms show ?thesis by (simp add: ensureClient_slow stored_rebuilt)
qed

subsection \<open>The encoding of the modulus tells moduli apart\<close>

lemma bytes_Nil: "bytes n = [] \<longleftrightarrow> n = 0"
  by (subst bytes.simps) simp

lemma bytes_0: "bytes 0 = []"
  by (simp add: bytes_Nil)

lemma bytes_inject: "bytes n = bytes m \<Longrightarrow> n = m"
proof (induction n arbitrary: m rule: bytes.induct)
  case (1 n)
  show ?case
  proof (cases "n = 0")
    case True
    then have "bytes n = []" by (simp add: bytes_Nil)
    with "1.prems" have "bytes m = []" by simp
    with True show ?thesis by (simp add: bytes_Nil)
  next
    case False
    with "1.prems" have "bytes m \<noteq> []"
      by (metis bytes_Nil)
    then have m: "m \<noteq> 0" by (simp add: bytes_Nil)
    from False have "bytes n = bytes (n div 256) @ [n mod 256]"
      by (subst bytes.simps) simp
    moreover from m have "bytes m = bytes (m div 256) @ [m mod 256]"
      by (subst bytes.simps) simp
    ultimately have "bytes (n div 256) = bytes (m div 256)" "n mod 256 = m mod 256"
      using "1.prems" by simp_all
    with "1.IH" [OF False] have "n div 256 = m div 256" "n mod 256 = m mod 256"
      by simp_all
    then show ?thesis
      by (metis div_mult_mod_eq)
  qed
qed

lemma bytes_bound: "\<forall>b \<in> set (bytes n). b < 256"
proof (induction n rule: bytes.induct)
  case (1 n)
  show ?case
  proof (cases "n = 0")
    case True
    then show ?thesis by (simp add: bytes_0)
  next
    case False
    then have "bytes n = bytes (n div 256) @ [n mod 256]"
      by (subst bytes.simps) simp
    with "1.IH" [OF False] show ?thesis by simp
  qed
qed

lemma char_of_byte_inject:
  assumes "a < 256" and "b < 256" and "char_of (a :: nat) = char_of b"
  shows "a = b"
proof -
  from assms(3) have "(of_char (char_of a) :: nat) = of_char (char_of b)"
    by (simp only:)
  then have "a mod 256 = b mod 256"
    by (simp only: of_char_of)
  with assms(1,2) show ?thesis
    by (simp only: mod_less)
qed

lemma map_char_of_inject:
  "\<forall>b \<in> set xs. b < 256 \<Longrightarrow> \<forall>b \<in> set ys. b < 256 \<Longrightarrow>
   map char_of xs = map char_of ys \<Longrightarrow> xs = (ys :: nat list)"
proof (induction xs arbitrary: ys)
  case Nil
  then show ?case by simp
next
  case (Cons x xs)
  from Cons.prems(3) obtain y ys' where ys: "ys = y # ys'"
    by (cases ys) simp_all
  with Cons.prems have "x < 256" "y < 256" "char_of x = char_of y"
    by simp_all
  then have "x = y"
    by (rule char_of_byte_inject)
  moreover from Cons.prems ys have "xs = ys'"
    by (intro Cons.IH) simp_all
  ultimately show ?case by (simp add: ys)
qed

lemma GobEncode_inject: "GobEncode x = GobEncode y \<longleftrightarrow> x = y"
proof
  assume eq: "GobEncode x = GobEncode y"
  show "x = y"
  proof (cases x)
    case None
    with eq show ?thesis by (cases y) (simp_all add: GobEncode_def)
  next
    case (Some i)
    with eq obtain j where y: "y = Some j"
      by (cases y) (simp_all add: GobEncode_def)
    from eq Some y have sign: "char_of (if i < 0 then 3 else 2 :: nat) =
        char_of (if j < 0 then 3 else 2 :: nat)"
      and mag: "map char_of (bytes (nat \<bar>i\<bar>)) = map char_of (bytes (nat \<bar>j\<bar>))"
      by (simp_all add: GobEncode_def)
    have "(if i < 0 then 3 else 2 :: nat) = (if j < 0 then 3 else 2)"
      by (rule char_of_byte_inject) (simp_all add: sign)
    then have "i < 0 \<longleftrightarrow> j < 0"
      by (simp split: if_splits)
    moreover from mag have "bytes (nat \<bar>i\<bar>) = bytes (nat \<bar>j\<bar>)"
      by (intro map_char_of_inject bytes_bound)
    then have "nat \<bar>i\<bar> = nat \<bar>j\<bar>"
      by (rule bytes_inject)
    ultimately have "i = j" by (cases "i < 0") simp_all
    with Some y show ?thesis by simp
  qed
qed simp

subsection \<open>The invariant\<close>

lemma registry_invariant_rebuilt:
  assumes inv: "registry_invariant w"
    and opts: "newStableOptions uid config privateKey = Inr newOpts"
  shows "registry_invariant (rebuilt uid config privateKey newOpts w)"
  unfolding registry_invariant_def
proof (intro allI impI)
  fix uid' meta
  let ?w' = "rebuilt uid config privateKey newOpts w"
  assume entry: "clients ?w' uid' = Some meta"
  show "issuerUID (stableOptions meta) = uid' \<and>
        Interface meta < length (acmeClients ?w') \<and>
        (\<exists>(config' :: ACMEIssuer) privateKey' ua.
           acmeClients ?w' ! Interface meta = clientObject config' privateKey' ua \<and>
           newStableOptions uid' config' privateKey' = Inr (stableOptions meta))"
  proof (cases "uid' = uid")
    case True
    with entry have meta: "meta = \<lparr>Interface = length (acmeClients w), stableOptions = newOpts\<rparr>"
      by (simp add: rebuilt_def)
    have "acmeClients ?w' ! Interface meta =
          clientObject (ACMEIssuer.truncate config) privateKey (CertManagerUserAgent w)"
      by (simp add: meta rebuilt_def clientObject_truncate)
    moreover have "newStableOptions uid' (ACMEIssuer.truncate config) privateKey =
          Inr (stableOptions meta)"
      by (simp add: meta True opts newStableOptions_truncate)
    moreover have "issuerUID (stableOptions meta) = uid'"
      using newStableOptions_issuerUID [OF opts] by (simp add: meta True)
    moreover have "Interface meta < length (acmeClients ?w')"
      by (simp add: meta rebuilt_def)
    ultimately show ?thesis by blast
  next
    case False
    with entry have old: "clients w uid' = Some meta"
      by (simp add: rebuilt_def)
    from inv old have uid: "issuerUID (stableOptions meta) = uid'"
      and alloc: "Interface meta < length (acmeClients w)"
      and built: "\<exists>(config' :: ACMEIssuer) privateKey' ua.
           acmeClients w ! Interface meta = clientObject config' privateKey' ua \<and>
           newStableOptions uid' config' privateKey' = Inr (stableOptions meta)"
      unfolding registry_invariant_def by blast+
    from alloc have "acmeClients ?w' ! Interface meta = acmeClients w ! Interface meta"
      by (simp add: rebuilt_def nth_append)
    with uid alloc built show ?thesis
      by (simp add: rebuilt_def)
  qed
qed

lemma registry_invariant_ensureClient:
  assumes "registry_invariant w"
  shows "registry_invariant (snd (ensureClient uid config privateKey w))"
proof (cases "newStableOptions uid config privateKey")
  case (Inl e)
  with assms show ?thesis by (simp add: ensureClient_panic)
next
  case (Inr newOpts)
  with assms show ?thesis
    by (cases "stored w uid newOpts")
      (simp_all add: ensureClient_fast ensureClient_slow registry_invariant_rebuilt)
qed

lemma registry_invariant_RemoveClient:
  "registry_invariant w \<Longrightarrow> registry_invariant (RemoveClient uid w)"
  by (auto simp: registry_invariant_def RemoveClient_def split: option.splits if_splits)

lemma registry_invariant_ListClients:
  "registry_invariant w \<Longrightarrow> registry_invariant (snd (ListClients w))"
  by (simp add: registry_invariant_def ListClients_def)

lemma registry_invariant_NewDefaultRegistry:
  "registry_invariant (NewDefaultRegistry w)"
  by (simp add: registry_invariant_def NewDefaultRegistry_def)

lemma registry_invariant_perform:
  "registry_invariant w \<Longrightarrow> registry_invariant (perform c w)"
  by (cases c)
    (simp_all add: AddClient_def registry_invariant_ensureClient
      registry_invariant_RemoveClient registry_invariant_ListClients)

lemma registry_invariant_calls:
  "registry_invariant w \<Longrightarrow> registry_invariant (calls cs w)"
  by (induction cs arbitrary: w) (simp_all add: registry_invariant_perform)

subsection \<open>The example state\<close>

lemma exampleOptions:
  "newStableOptions ''a'' exampleConfig (Some exampleKey) =
   Inr \<lparr>serverURL = ''https://acme.example/directory'', skipVerifyTLS = False,
        issuerUID = ''a'', publicKey = map char_of [2, 12, 161 :: nat], exponent = 17\<rparr>"
  by (simp add: newStableOptions_def exampleConfig_def exampleKey_def GobEncode_def bytes.simps)

lemma exampleWorld1:
  "exampleWorld1 =
     \<lparr>clients = [''a'' \<mapsto> \<lparr>Interface = 0, stableOptions =
         \<lparr>serverURL = ''https://acme.example/directory'', skipVerifyTLS = False,
          issuerUID = ''a'', publicKey = map char_of [2, 12, 161 :: nat], exponent = 17\<rparr>\<rparr>],
      acmeClients = [clientObject exampleConfig (Some exampleKey) ''jetstack-cert-manager''],
      ifaceMaps = [],
      CertManagerUserAgent = ''jetstack-cert-manager''\<rparr>"
  by (simp add: exampleWorld1_def AddClient_def ensureClient_def exampleOptions NewClient_def
      emptyWorld_def)

lemma registry_invariant_emptyWorld: "registry_invariant emptyWorld"
  by (simp add: registry_invariant_def emptyWorld_def)

lemma exampleWorld2:
  "exampleWorld2 =
     \<lparr>clients = [''a'' \<mapsto> \<lparr>Interface = 1, stableOptions =
         \<lparr>serverURL = ''https://acme.example/directory'', skipVerifyTLS = True,
          issuerUID = ''a'', publicKey = map char_of [2, 12, 161 :: nat], exponent = 17\<rparr>\<rparr>],
      acmeClients = [clientObject exampleConfig (Some exampleKey) ''jetstack-cert-manager'',
        clientObject exampleConfig' (Some exampleKey) ''jetstack-cert-manager''],
      ifaceMaps = [],
      CertManagerUserAgent = ''jetstack-cert-manager''\<rparr>"
  by (simp add: exampleWorld2_def exampleWorld1 AddClient_def ensureClient_def NewClient_def
      newStableOptions_def exampleConfig'_def exampleKey_def GobEncode_def bytes.simps equalTo_def)

subsection \<open>Sequences of calls\<close>

text \<open>A call other than \<^verbatim>\<open>AddClient\<close> for a UID makes no entry for it.\<close>

lemma perform_clients_None:
  "clients w uid = None \<Longrightarrow> \<forall>config privateKey. c \<noteq> CallAddClient uid config privateKey \<Longrightarrow>
   clients (perform c w) uid = None"
proof (cases c)
  case (CallAddClient uid' config privateKey)
  assume none: "clients w uid = None"
    and "\<forall>config privateKey. c \<noteq> CallAddClient uid config privateKey"
  with CallAddClient have neq: "uid' \<noteq> uid" by auto
  show ?thesis
  proof (cases "newStableOptions uid' config privateKey")
    case (Inl e)
    with none CallAddClient show ?thesis by (simp add: AddClient_def ensureClient_panic)
  next
    case (Inr newOpts)
    with none CallAddClient neq show ?thesis
      by (cases "stored w uid' newOpts")
        (simp_all add: AddClient_def ensureClient_fast ensureClient_slow rebuilt_def)
  qed
qed (simp_all add: RemoveClient_def ListClients_def split: option.splits)

lemma calls_clients_None:
  "clients w uid = None \<Longrightarrow>
   \<forall>config privateKey. CallAddClient uid config privateKey \<notin> set cs \<Longrightarrow>
   clients (calls cs w) uid = None"
proof (induction cs arbitrary: w)
  case Nil
  then show ?case by simp
next
  case (Cons c cs)
  from Cons.prems have "\<forall>config privateKey. c \<noteq> CallAddClient uid config privateKey"
    by auto
  with Cons.prems(1) have "clients (perform c w) uid = None"
    by (rule perform_clients_None)
  moreover from Cons.prems have
    "\<forall>config privateKey. CallAddClient uid config privateKey \<notin> set cs"
    by auto
  ultimately show ?case using Cons.IH by simp
qed

text \<open>No call changes a map that \<^verbatim>\<open>ListClients\<close> has returned.\<close>

lemma perform_ifaceMaps:
  "p < length (ifaceMaps w) \<Longrightarrow>
   p < length (ifaceMaps (perform c w)) \<and> ifaceMaps (perform c w) ! p = ifaceMaps w ! p"
proof (cases c)
  case (CallAddClient uid config privateKey)
  assume "p < length (ifaceMaps w)"
  show ?thesis
  proof (cases "newStableOptions uid config privateKey")
    case (Inl e)
    with CallAddClient \<open>p < length (ifaceMaps w)\<close> show ?thesis
      by (simp add: AddClient_def ensureClient_panic)
  next
    case (Inr newOpts)
    with CallAddClient \<open>p < length (ifaceMaps w)\<close> show ?thesis
      by (cases "stored w uid newOpts")
        (simp_all add: AddClient_def ensureClient_fast ensureClient_slow rebuilt_def)
  qed
qed (simp_all add: RemoveClient_def ListClients_def nth_append split: option.splits)

lemma calls_ifaceMaps:
  "p < length (ifaceMaps w) \<Longrightarrow>
   p < length (ifaceMaps (calls cs w)) \<and> ifaceMaps (calls cs w) ! p = ifaceMaps w ! p"
proof (induction cs arbitrary: w)
  case Nil
  then show ?case by simp
next
  case (Cons c cs)
  from perform_ifaceMaps [OF Cons.prems, of c]
  have step: "p < length (ifaceMaps (perform c w))"
    "ifaceMaps (perform c w) ! p = ifaceMaps w ! p"
    by simp_all
  from Cons.IH [OF step(1)] step(2) show ?case by simp
qed

subsection \<open>Threads: every interleaving keeps the invariant\<close>

lemma compare_stored:
  "(case clients w uid of Some meta \<Rightarrow> equalTo (stableOptions meta) newOpts | None \<Rightarrow> False) =
   stored w uid newOpts"
  by (auto simp: stored_def equalTo_def split: option.splits)

lemma others_idle_update [simp]:
  "others_idle r t (pcs[t := pc]) = others_idle r t pcs"
  by (simp add: others_idle_def)

lemma others_returned_update [simp]:
  "others_returned t (pcs[t := pc]) = others_returned t pcs"
  by (auto simp: others_returned_def)

lemma some_returned_others:
  "t < length pcs \<Longrightarrow> some_returned pcs = (returned (pcs ! t) \<or> others_returned t pcs)"
  by (auto simp: some_returned_def others_returned_def)

lemma others_idle_not_critical:
  "others_idle r t pcs \<Longrightarrow> t' < length pcs \<Longrightarrow> t' \<noteq> t \<Longrightarrow> idle r (pcs ! t')"
  by (simp add: others_idle_def)

text \<open>A step of the thread in the critical section keeps its invariant.\<close>

lemma critical_step:
  assumes inv: "critical_invariant uid config privateKey w0 fin pc w"
    and step: "threadStep uid config privateKey pc True w = Some (pc', locked', w')"
  shows "if locked' then critical_invariant uid config privateKey w0 fin pc' w'
         else pc' = Returned (fst (ensureClient uid config privateKey w0)) \<and>
              w' = snd (ensureClient uid config privateKey w0)"
proof (cases pc)
  case AtLock
  with inv show ?thesis by simp
next
  case AtNewStableOptions
  show ?thesis
  proof (cases "newStableOptions uid config privateKey")
    case (Inl e)
    with inv step AtNewStableOptions show ?thesis
      by (auto simp: ensureClient_panic)
  next
    case (Inr newOpts)
    with inv step AtNewStableOptions show ?thesis
      by auto
  qed
next
  case (AtCompare newOpts)
  with inv have opts: "newStableOptions uid config privateKey = Inr newOpts"
    and w: "w = (if fin then snd (ensureClient uid config privateKey w0) else w0)"
    by simp_all
  show ?thesis
  proof (cases "stored w uid newOpts")
    case True
    with step AtCompare have res: "pc' = AtUnlock (Inr ())" "locked'" "w' = w"
      by (simp_all add: compare_stored)
    have "fst (ensureClient uid config privateKey w0) = Inr ()"
      using opts by (cases "stored w0 uid newOpts") (simp_all add: ensureClient_fast ensureClient_slow)
    moreover have "w = snd (ensureClient uid config privateKey w0)"
    proof (cases fin)
      case True
      with w show ?thesis by simp
    next
      case False
      with w \<open>stored w uid newOpts\<close> opts show ?thesis by (simp add: ensureClient_fast)
    qed
    ultimately show ?thesis by (simp add: res)
  next
    case False
    with step AtCompare have res: "pc' = AtNewClient newOpts" "locked'" "w' = w"
      by (simp_all add: compare_stored)
    from False w ensureClient_stored [OF opts, of w0] have "\<not> fin"
      by auto
    with False w opts show ?thesis by (simp add: res)
  qed
next
  case (AtNewClient newOpts)
  with inv step show ?thesis
    by (auto split: prod.splits)
next
  case (AtStore c newOpts)
  with inv have opts: "newStableOptions uid config privateKey = Inr newOpts"
    and new: "\<not> stored w0 uid newOpts" and alloc: "(c, w) = NewClient config privateKey w0"
    by simp_all
  from alloc have "w\<lparr>clients := (clients w)(uid \<mapsto> \<lparr>Interface = c, stableOptions = newOpts\<rparr>)\<rparr> =
      rebuilt uid config privateKey newOpts w0"
    by (simp add: NewClient_def rebuilt_def)
  with step AtStore opts new show ?thesis
    by (auto simp: ensureClient_slow)
next
  case (AtUnlock r)
  with inv step show ?thesis by auto
next
  case (Returned r)
  with inv show ?thesis by simp
qed

lemma critical_invariant_critical:
  "critical_invariant uid config privateKey w0 fin pc w \<Longrightarrow> critical pc"
  by (cases pc) simp_all

lemma idle_not_critical: "idle r pc \<Longrightarrow> \<not> critical pc"
  by (auto simp: idle_def)

lemma idle_step:
  "idle r pc \<Longrightarrow> threadStep uid config privateKey pc True w = None"
  by (auto simp: idle_def)

text \<open>Every step of the scheduler keeps the invariant of the system.\<close>

lemma schedule_invariant:
  assumes inv: "system_invariant uid config privateKey w0 s"
  shows "system_invariant uid config privateKey w0 (schedule uid config privateKey t s)"
proof -
  let ?rf = "fst (ensureClient uid config privateKey w0)"
  let ?wf = "snd (ensureClient uid config privateKey w0)"
  obtain locked w pcs where s: "s = (locked, w, pcs)"
    by (cases s)
  show ?thesis
  proof (cases "t < length pcs")
    case False
    with inv s show ?thesis by simp
  next
    case t: True
    show ?thesis
    proof (cases locked)
      case False
      with inv s have idle: "\<forall>t < length pcs. idle ?rf (pcs ! t)"
        and w: "w = (if some_returned pcs then ?wf else w0)"
        by simp_all
      from idle t have "pcs ! t = AtLock \<or> pcs ! t = Returned ?rf"
        by (simp add: idle_def)
      then show ?thesis
      proof
        assume at: "pcs ! t = AtLock"
        with s False t
        have sched: "schedule uid config privateKey t s = (True, w, pcs[t := AtNewStableOptions])"
          by simp
        have "others_idle ?rf t pcs"
          using idle by (simp add: others_idle_def)
        moreover have "some_returned pcs = others_returned t pcs"
          using some_returned_others [OF t] at by simp
        ultimately show ?thesis
          unfolding sched using t w by auto
      next
        assume "pcs ! t = Returned ?rf"
        with s t have "schedule uid config privateKey t s = s" by simp
        with inv show ?thesis by simp
      qed
    next
      case True
      with inv s obtain t0 where t0: "t0 < length pcs"
        and others: "others_idle ?rf t0 pcs"
        and ci: "critical_invariant uid config privateKey w0 (others_returned t0 pcs) (pcs ! t0) w"
        by auto
      show ?thesis
      proof (cases "t = t0")
        case False
        with others t have "idle ?rf (pcs ! t)"
          by (simp add: others_idle_def)
        then have "threadStep uid config privateKey (pcs ! t) True w = None"
          by (rule idle_step)
        with s t True have "schedule uid config privateKey t s = s" by simp
        with inv show ?thesis by simp
      next
        case same: True
        show ?thesis
        proof (cases "threadStep uid config privateKey (pcs ! t0) True w")
          case None
          with s t True same have "schedule uid config privateKey t s = s" by simp
          with inv show ?thesis by simp
        next
          case (Some res)
          then obtain pc' locked' w' where
            step: "threadStep uid config privateKey (pcs ! t0) True w = Some (pc', locked', w')"
            by (cases res) auto
          with s t True same
          have sched: "schedule uid config privateKey t s = (locked', w', pcs[t0 := pc'])"
            by simp
          note after = critical_step [OF ci step]
          show ?thesis
          proof (cases locked')
            case True
            with after t0 others show ?thesis
              unfolding sched by auto
          next
            case False
            with after have pc': "pc' = Returned ?rf" and w': "w' = ?wf"
              by simp_all
            have "\<forall>t' < length (pcs[t0 := pc']). idle ?rf (pcs[t0 := pc'] ! t')"
            proof (intro allI impI)
              fix t'
              assume t': "t' < length (pcs[t0 := pc'])"
              show "idle ?rf (pcs[t0 := pc'] ! t')"
              proof (cases "t' = t0")
                case True
                with t0 pc' show ?thesis by (simp add: idle_def)
              next
                case False
                with others t' show ?thesis by (simp add: others_idle_def)
              qed
            qed
            moreover have "some_returned (pcs[t0 := pc'])"
              using t0 pc' by (auto simp: some_returned_def intro!: exI [of _ t0])
            ultimately show ?thesis
              unfolding sched using False w' by simp
          qed
        qed
      qed
    qed
  qed
qed

lemma interleave_invariant:
  "system_invariant uid config privateKey w0 s \<Longrightarrow>
   system_invariant uid config privateKey w0 (interleave uid config privateKey ts s)"
  by (induction ts arbitrary: s) (simp_all add: schedule_invariant)

lemma system_invariant_initial:
  "system_invariant uid config privateKey w (False, w, replicate n AtLock)"
  by (auto simp: idle_def some_returned_def)

lemma schedule_length:
  "length (snd (snd (schedule uid config privateKey t s))) = length (snd (snd s))"
  by (cases s) (auto split: option.splits)

lemma interleave_length:
  "length (snd (snd (interleave uid config privateKey ts s))) = length (snd (snd s))"
  by (induction ts arbitrary: s) (simp_all add: schedule_length)

text \<open>What the invariant says when every thread has returned, and about the lock.\<close>

lemma system_invariant_final:
  assumes inv: "system_invariant uid config privateKey w0 (locked, w, pcs)"
    and fin: "\<forall>pc \<in> set pcs. returned pc" and some: "pcs \<noteq> []"
  shows "\<not> locked \<and> w = snd (ensureClient uid config privateKey w0) \<and>
         (\<forall>pc \<in> set pcs. pc = Returned (fst (ensureClient uid config privateKey w0)))"
proof -
  have unlocked: "\<not> locked"
  proof
    assume locked
    with inv obtain t where "t < length pcs"
      "critical_invariant uid config privateKey w0 (others_returned t pcs) (pcs ! t) w"
      by auto
    then have "critical (pcs ! t)" "pcs ! t \<in> set pcs"
      by (auto dest: critical_invariant_critical)
    with fin show False by (cases "pcs ! t") auto
  qed
  with inv have idle: "\<forall>t < length pcs. idle (fst (ensureClient uid config privateKey w0)) (pcs ! t)"
    and w: "w = (if some_returned pcs then snd (ensureClient uid config privateKey w0) else w0)"
    by simp_all
  from some fin have "some_returned pcs"
    by (cases pcs) (auto simp: some_returned_def intro!: exI [of _ 0])
  moreover have "\<forall>pc \<in> set pcs. pc = Returned (fst (ensureClient uid config privateKey w0))"
  proof
    fix pc
    assume "pc \<in> set pcs"
    then obtain t where "t < length pcs" "pcs ! t = pc"
      by (auto simp: in_set_conv_nth)
    with idle have "idle (fst (ensureClient uid config privateKey w0)) pc"
      by blast
    moreover from fin \<open>pc \<in> set pcs\<close> have "returned pc"
      by blast
    ultimately show "pc = Returned (fst (ensureClient uid config privateKey w0))"
      by (auto simp: idle_def)
  qed
  ultimately show ?thesis using unlocked w by simp
qed

lemma system_invariant_exclusion:
  assumes inv: "system_invariant uid config privateKey w0 (locked, w, pcs)"
  shows "(locked \<longleftrightarrow> (\<exists>t < length pcs. critical (pcs ! t))) \<and>
         (\<forall>t t'. t < length pcs \<and> t' < length pcs \<and> critical (pcs ! t) \<and> critical (pcs ! t') \<longrightarrow>
            t = t')"
proof (cases locked)
  case True
  with inv obtain t0 where t0: "t0 < length pcs"
    and others: "others_idle (fst (ensureClient uid config privateKey w0)) t0 pcs"
    and ci: "critical_invariant uid config privateKey w0 (others_returned t0 pcs) (pcs ! t0) w"
    by auto
  from ci have "critical (pcs ! t0)"
    by (rule critical_invariant_critical)
  moreover have "\<forall>t < length pcs. critical (pcs ! t) \<longrightarrow> t = t0"
    using others by (auto simp: others_idle_def dest: idle_not_critical)
  ultimately show ?thesis using True t0 by blast
next
  case False
  with inv have "\<forall>t < length pcs. \<not> critical (pcs ! t)"
    by (auto dest: idle_not_critical)
  with False show ?thesis by blast
qed

text \<open>
  A thread that runs alone from the call of \<^verbatim>\<open>Lock\<close> to its return does what
  the method does as one function of the state: six steps at most.
\<close>

lemma interleave_append:
  "interleave uid config privateKey (ts @ ts') s =
   interleave uid config privateKey ts' (interleave uid config privateKey ts s)"
  by (induction ts arbitrary: s) simp_all

lemma interleave_alone:
  assumes t: "t < length pcs" and at: "pcs ! t = AtLock"
  shows "interleave uid config privateKey (replicate 6 t) (False, w, pcs) =
         (False, snd (ensureClient uid config privateKey w),
          pcs[t := Returned (fst (ensureClient uid config privateKey w))])"
proof -
  have six: "replicate 6 t = [t, t, t, t, t, t]"
    by (simp add: eval_nat_numeral)
  show ?thesis
  proof (cases "newStableOptions uid config privateKey")
    case (Inl e)
    with t at show ?thesis
      by (simp add: six ensureClient_panic)
  next
    case (Inr newOpts)
    show ?thesis
    proof (cases "stored w uid newOpts")
      case True
      with Inr t at show ?thesis
        by (simp add: six ensureClient_fast compare_stored)
    next
      case False
      with Inr t at show ?thesis
        by (simp add: six ensureClient_slow compare_stored NewClient_def rebuilt_def)
    qed
  qed
qed

lemma interleave_returned:
  assumes "t < length pcs \<longrightarrow> returned (pcs ! t)"
  shows "interleave uid config privateKey (replicate k t) (False, w, pcs) = (False, w, pcs)"
proof (induction k)
  case 0
  show ?case by simp
next
  case (Suc k)
  have "schedule uid config privateKey t (False, w, pcs) = (False, w, pcs)"
  proof (cases "t < length pcs")
    case True
    with assms obtain r where "pcs ! t = Returned r"
      by (cases "pcs ! t") auto
    with True show ?thesis by simp
  next
    case False
    then show ?thesis by simp
  qed
  with Suc show ?case by simp
qed

text \<open>The threads of a list, one after the other, all return.\<close>

lemma interleave_in_turn:
  assumes "\<forall>t < length pcs. pcs ! t = AtLock \<or> returned (pcs ! t)"
  shows "\<exists>w' pcs'.
     interleave uid config privateKey (concat (map (replicate 6) todo)) (False, w, pcs) =
       (False, w', pcs') \<and>
     length pcs' = length pcs \<and>
     (\<forall>t < length pcs. (t \<in> set todo \<or> returned (pcs ! t)) \<longrightarrow> returned (pcs' ! t))"
  using assms
proof (induction todo arbitrary: w pcs)
  case Nil
  then show ?case by simp
next
  case (Cons t todo)
  have "\<exists>w1 pcs1.
     interleave uid config privateKey (replicate 6 t) (False, w, pcs) = (False, w1, pcs1) \<and>
     length pcs1 = length pcs \<and>
     (\<forall>t' < length pcs. pcs1 ! t' = AtLock \<or> returned (pcs1 ! t')) \<and>
     (\<forall>t' < length pcs. (t' = t \<or> returned (pcs ! t')) \<longrightarrow> returned (pcs1 ! t'))"
  proof (cases "t < length pcs \<and> pcs ! t = AtLock")
    case True
    then have "interleave uid config privateKey (replicate 6 t) (False, w, pcs) =
         (False, snd (ensureClient uid config privateKey w),
          pcs[t := Returned (fst (ensureClient uid config privateKey w))])"
      by (simp add: interleave_alone)
    moreover have "\<forall>t' < length pcs.
        pcs[t := Returned (fst (ensureClient uid config privateKey w))] ! t' = AtLock \<or>
        returned (pcs[t := Returned (fst (ensureClient uid config privateKey w))] ! t')"
      using Cons.prems True by (auto simp: nth_list_update)
    moreover have "\<forall>t' < length pcs. (t' = t \<or> returned (pcs ! t')) \<longrightarrow>
        returned (pcs[t := Returned (fst (ensureClient uid config privateKey w))] ! t')"
      using True by (auto simp: nth_list_update)
    ultimately show ?thesis by simp
  next
    case False
    with Cons.prems have ret: "t < length pcs \<longrightarrow> returned (pcs ! t)"
      by auto
    then have "interleave uid config privateKey (replicate 6 t) (False, w, pcs) = (False, w, pcs)"
      by (rule interleave_returned)
    with Cons.prems ret show ?thesis by auto
  qed
  then obtain w1 pcs1 where
    first: "interleave uid config privateKey (replicate 6 t) (False, w, pcs) = (False, w1, pcs1)"
    and len1: "length pcs1 = length pcs"
    and idle1: "\<forall>t' < length pcs. pcs1 ! t' = AtLock \<or> returned (pcs1 ! t')"
    and ret1: "\<forall>t' < length pcs. (t' = t \<or> returned (pcs ! t')) \<longrightarrow> returned (pcs1 ! t')"
    by blast
  from idle1 len1 have "\<forall>t' < length pcs1. pcs1 ! t' = AtLock \<or> returned (pcs1 ! t')"
    by simp
  from Cons.IH [OF this, of w1] obtain w' pcs' where
    rest: "interleave uid config privateKey (concat (map (replicate 6) todo)) (False, w1, pcs1) =
       (False, w', pcs')"
    and len': "length pcs' = length pcs1"
    and ret': "\<forall>t' < length pcs1. (t' \<in> set todo \<or> returned (pcs1 ! t')) \<longrightarrow> returned (pcs' ! t')"
    by blast
  have "interleave uid config privateKey (concat (map (replicate 6) (t # todo))) (False, w, pcs) =
       (False, w', pcs')"
    by (simp add: interleave_append first rest)
  moreover have "length pcs' = length pcs"
    using len' len1 by simp
  moreover have "\<forall>t' < length pcs. (t' \<in> set (t # todo) \<or> returned (pcs ! t')) \<longrightarrow>
      returned (pcs' ! t')"
    using ret1 ret' len1 by auto
  ultimately show ?case by blast
qed

lemma interleave_completes:
  "\<exists>ts. \<forall>pc \<in> set (snd (snd (interleave uid config privateKey ts
      (False, w, replicate n AtLock)))). returned pc"
proof -
  have "\<forall>t < length (replicate n AtLock). replicate n AtLock ! t = AtLock \<or>
      returned (replicate n AtLock ! t)"
    by simp
  from interleave_in_turn [OF this, of uid config privateKey "[0..<n]" w]
  obtain w' pcs' where
    run: "interleave uid config privateKey (concat (map (replicate 6) [0..<n]))
       (False, w, replicate n AtLock) = (False, w', pcs')"
    and len: "length pcs' = n"
    and ret: "\<forall>t < n. returned (pcs' ! t)"
    by auto
  from len ret have "\<forall>pc \<in> set pcs'. returned pc"
    by (auto simp: in_set_conv_nth)
  with run show ?thesis
    by (intro exI [of _ "concat (map (replicate 6) [0..<n])"]) simp
qed

subsection \<open>Claims\<close>

text \<open>
  C1. If the registry holds an entry for the UID whose stored options equal the
  options computed from the arguments, \<^verbatim>\<open>ensureClient\<close> builds no client and
  leaves the state as it is. So a second call with the same arguments changes
  nothing, and the two calls together build one client when the first call finds
  no entry with these options, and none otherwise.
\<close>

theorem ensureClient_same_options_noop:
  "(clients w uid = Some meta \<and>
      newStableOptions uid config privateKey = Inr (stableOptions meta) \<longrightarrow>
      ensureClient uid config privateKey w = (Inr (), w)) \<and>
   (ensureClient uid config privateKey w = (Inr (), w1) \<longrightarrow>
      ensureClient uid config privateKey w1 = (Inr (), w1) \<and>
      acmeClients w1 =
        (if \<exists>meta'. clients w uid = Some meta' \<and>
              newStableOptions uid config privateKey = Inr (stableOptions meta')
         then acmeClients w
         else acmeClients w @ [clientObject config privateKey (CertManagerUserAgent w)]))"
proof (intro conjI impI)
  assume "clients w uid = Some meta \<and>
      newStableOptions uid config privateKey = Inr (stableOptions meta)"
  then show "ensureClient uid config privateKey w = (Inr (), w)"
    by (simp add: ensureClient_fast stored_def)
next
  assume first: "ensureClient uid config privateKey w = (Inr (), w1)"
  then obtain newOpts where opts: "newStableOptions uid config privateKey = Inr newOpts"
    by (cases "newStableOptions uid config privateKey") (auto simp: ensureClient_panic)
  from ensureClient_stored [OF opts, of w] first have "stored w1 uid newOpts"
    by simp
  with opts show "ensureClient uid config privateKey w1 = (Inr (), w1)"
    by (rule ensureClient_fast)
  show "acmeClients w1 =
        (if \<exists>meta'. clients w uid = Some meta' \<and>
              newStableOptions uid config privateKey = Inr (stableOptions meta')
         then acmeClients w
         else acmeClients w @ [clientObject config privateKey (CertManagerUserAgent w)])"
  proof (cases "stored w uid newOpts")
    case True
    with opts first have "w1 = w" by (simp add: ensureClient_fast)
    with True opts show ?thesis by (auto simp: stored_def)
  next
    case False
    with opts first have "w1 = rebuilt uid config privateKey newOpts w"
      by (simp add: ensureClient_slow)
    with False opts show ?thesis by (auto simp: stored_def rebuilt_def)
  qed
qed

theorem ensureClient_same_options_noop_witness:
  "clients exampleWorld1 ''a'' = Some (the (clients exampleWorld1 ''a'')) \<and>
   newStableOptions ''a'' exampleConfig (Some exampleKey) =
     Inr (stableOptions (the (clients exampleWorld1 ''a''))) \<and>
   ensureClient ''a'' exampleConfig (Some exampleKey) emptyWorld = (Inr (), exampleWorld1) \<and>
   ensureClient ''a'' exampleConfig (Some exampleKey) exampleWorld1 = (Inr (), exampleWorld1) \<and>
   acmeClients exampleWorld1 =
     [clientObject exampleConfig (Some exampleKey) ''jetstack-cert-manager'']"
proof -
  have entry: "clients exampleWorld1 ''a'' = Some (the (clients exampleWorld1 ''a''))"
    by (simp add: exampleWorld1)
  have opts: "newStableOptions ''a'' exampleConfig (Some exampleKey) =
     Inr (stableOptions (the (clients exampleWorld1 ''a'')))"
    by (simp add: exampleWorld1 exampleOptions)
  have first: "ensureClient ''a'' exampleConfig (Some exampleKey) emptyWorld =
     (Inr (), exampleWorld1)"
    by (simp add: exampleWorld1_def AddClient_def ensureClient_def exampleOptions
        NewClient_def emptyWorld_def)
  have none: "clients emptyWorld ''a'' = None"
    by (simp add: emptyWorld_def)
  show ?thesis
    using ensureClient_same_options_noop
      [of exampleWorld1 "''a''" "the (clients exampleWorld1 ''a'')" exampleConfig
        "Some exampleKey" exampleWorld1]
      ensureClient_same_options_noop
      [of emptyWorld "''a''" "the (clients exampleWorld1 ''a'')" exampleConfig
        "Some exampleKey" exampleWorld1]
      entry opts first none
    by (simp add: emptyWorld_def)
qed

text \<open>
  C2. Two values of \<^verbatim>\<open>stableOptions\<close> are equal exactly when their five
  fields are, and the encoded moduli are equal exactly when the moduli are. After
  a call of \<^verbatim>\<open>ensureClient\<close> for a UID, a call for the same UID whose server
  URL, skip-verify flag, encoded modulus or exponent differs builds one client,
  stores it with the new options in place of the old entry, and \<^verbatim>\<open>GetClient\<close>
  returns the new client, which is not the old one.
\<close>

theorem ensureClient_changed_options_rebuilds:
  "equalTo c c2 =
     (serverURL c = serverURL c2 \<and> skipVerifyTLS c = skipVerifyTLS c2 \<and>
      issuerUID c = issuerUID c2 \<and> publicKey c = publicKey c2 \<and> exponent c = exponent c2) \<and>
   (GobEncode x = GobEncode y \<longleftrightarrow> x = y) \<and>
   (registry_invariant w \<and>
    ensureClient uid config1 (Some k1) w = (Inr (), w1) \<and>
    (Server config1 \<noteq> Server config2 \<or> SkipTLSVerify config1 \<noteq> SkipTLSVerify config2 \<or>
     GobEncode (N k1) \<noteq> GobEncode (N k2) \<or> E k1 \<noteq> E k2) \<and>
    ensureClient uid config2 (Some k2) w1 = (r, w2) \<longrightarrow>
      r = Inr () \<and>
      acmeClients w2 =
        acmeClients w1 @ [clientObject config2 (Some k2) (CertManagerUserAgent w1)] \<and>
      clients w2 = (clients w1)(uid \<mapsto>
        \<lparr>Interface = length (acmeClients w1),
         stableOptions =
           \<lparr>serverURL = Server config2, skipVerifyTLS = SkipTLSVerify config2,
            issuerUID = uid, publicKey = GobEncode (N k2), exponent = E k2\<rparr>\<rparr>) \<and>
      GetClient uid w2 = Inr (length (acmeClients w1)) \<and>
      GetClient uid w2 \<noteq> GetClient uid w1)"
proof (intro conjI impI)
  show "equalTo c c2 =
     (serverURL c = serverURL c2 \<and> skipVerifyTLS c = skipVerifyTLS c2 \<and>
      issuerUID c = issuerUID c2 \<and> publicKey c = publicKey c2 \<and> exponent c = exponent c2)"
    by (cases c, cases c2) (auto simp: equalTo_def)
next
  show "GobEncode x = GobEncode y \<longleftrightarrow> x = y"
    by (rule GobEncode_inject)
next
  let ?o1 = "\<lparr>serverURL = Server config1, skipVerifyTLS = SkipTLSVerify config1,
            issuerUID = uid, publicKey = GobEncode (N k1), exponent = E k1\<rparr>"
  let ?o2 = "\<lparr>serverURL = Server config2, skipVerifyTLS = SkipTLSVerify config2,
            issuerUID = uid, publicKey = GobEncode (N k2), exponent = E k2\<rparr>"
  assume asm: "registry_invariant w \<and>
    ensureClient uid config1 (Some k1) w = (Inr (), w1) \<and>
    (Server config1 \<noteq> Server config2 \<or> SkipTLSVerify config1 \<noteq> SkipTLSVerify config2 \<or>
     GobEncode (N k1) \<noteq> GobEncode (N k2) \<or> E k1 \<noteq> E k2) \<and>
    ensureClient uid config2 (Some k2) w1 = (r, w2)"
  have o1: "newStableOptions uid config1 (Some k1) = Inr ?o1"
    and o2: "newStableOptions uid config2 (Some k2) = Inr ?o2"
    by (simp_all add: newStableOptions_def)
  from asm have diff: "?o1 \<noteq> ?o2" by auto
  from asm have w1: "w1 = snd (ensureClient uid config1 (Some k1) w)" by simp
  have inv1: "registry_invariant w1"
    using asm w1 by (simp add: registry_invariant_ensureClient)
  have "stored w1 uid ?o1"
    unfolding w1 using o1 by (rule ensureClient_stored)
  then obtain meta where meta: "clients w1 uid = Some meta" "stableOptions meta = ?o1"
    by (auto simp: stored_def)
  with diff have "\<not> stored w1 uid ?o2"
    by (auto simp: stored_def)
  with o2 asm have res: "r = Inr ()" "w2 = rebuilt uid config2 (Some k2) ?o2 w1"
    by (simp_all add: ensureClient_slow)
  from inv1 meta(1) have alloc: "Interface meta < length (acmeClients w1)"
    unfolding registry_invariant_def by blast
  show "r = Inr ()" by (rule res)
  show "acmeClients w2 =
        acmeClients w1 @ [clientObject config2 (Some k2) (CertManagerUserAgent w1)]"
    by (simp add: res rebuilt_def)
  show "clients w2 = (clients w1)(uid \<mapsto>
        \<lparr>Interface = length (acmeClients w1), stableOptions = ?o2\<rparr>)"
    by (simp add: res rebuilt_def)
  show "GetClient uid w2 = Inr (length (acmeClients w1))"
    by (simp add: res rebuilt_def GetClient_def)
  show "GetClient uid w2 \<noteq> GetClient uid w1"
    using alloc meta(1) by (simp add: res rebuilt_def GetClient_def)
qed

theorem ensureClient_changed_options_rebuilds_witness:
  "registry_invariant emptyWorld \<and>
   ensureClient ''a'' exampleConfig (Some exampleKey) emptyWorld = (Inr (), exampleWorld1) \<and>
   SkipTLSVerify exampleConfig \<noteq> SkipTLSVerify exampleConfig' \<and>
   ensureClient ''a'' exampleConfig' (Some exampleKey) exampleWorld1 = (Inr (), exampleWorld2) \<and>
   GetClient ''a'' exampleWorld1 = Inr 0 \<and>
   GetClient ''a'' exampleWorld2 = Inr 1 \<and>
   length (acmeClients exampleWorld2) = 2"
proof -
  have first: "ensureClient ''a'' exampleConfig (Some exampleKey) emptyWorld =
     (Inr (), exampleWorld1)"
    by (simp add: exampleWorld1_def AddClient_def ensureClient_def exampleOptions
        NewClient_def emptyWorld_def)
  have flag: "SkipTLSVerify exampleConfig \<noteq> SkipTLSVerify exampleConfig'"
    by (simp add: exampleConfig_def exampleConfig'_def)
  have second: "ensureClient ''a'' exampleConfig' (Some exampleKey) exampleWorld1 =
     (fst (ensureClient ''a'' exampleConfig' (Some exampleKey) exampleWorld1), exampleWorld2)"
    by (simp add: exampleWorld2_def AddClient_def)
  have old: "GetClient ''a'' exampleWorld1 = Inr 0"
    by (simp add: GetClient_def exampleWorld1)
  show ?thesis
    using ensureClient_changed_options_rebuilds
      [of "stableOptions (the (clients exampleWorld1 ''a''))"
        "stableOptions (the (clients exampleWorld2 ''a''))" "N exampleKey" "N exampleKey'"
        emptyWorld "''a''" exampleConfig exampleKey exampleWorld1 exampleConfig' exampleKey
        "fst (ensureClient ''a'' exampleConfig' (Some exampleKey) exampleWorld1)" exampleWorld2]
      registry_invariant_emptyWorld first flag second old
    by (simp add: exampleWorld1)
qed

text \<open>
  C3. After a call of \<^verbatim>\<open>ensureClient\<close> that returns, \<^verbatim>\<open>GetClient\<close> returns a
  client that \<^verbatim>\<open>NewClient\<close> built from the configuration and the key of the
  call. This fails: a call whose key has the public key of the stored entry and
  another private exponent keeps the client built from the earlier key.
\<close>

theorem GetClient_exact_inputs_counterexample:
  "fst (ensureClient ''a'' exampleConfig (Some exampleKey') exampleWorld1) = Inr () \<and>
   GetClient ''a'' (snd (ensureClient ''a'' exampleConfig (Some exampleKey') exampleWorld1)) =
     Inr 0 \<and>
   acmeClients (snd (ensureClient ''a'' exampleConfig (Some exampleKey') exampleWorld1)) =
     [clientObject exampleConfig (Some exampleKey) ''jetstack-cert-manager''] \<and>
   clientObject exampleConfig (Some exampleKey) ''jetstack-cert-manager'' \<noteq>
     clientObject exampleConfig (Some exampleKey') ''jetstack-cert-manager''"
proof -
  have opts: "newStableOptions ''a'' exampleConfig (Some exampleKey') =
      newStableOptions ''a'' exampleConfig (Some exampleKey)"
    by (simp add: newStableOptions_def exampleKey_def exampleKey'_def)
  have "ensureClient ''a'' exampleConfig (Some exampleKey') exampleWorld1 =
      (Inr (), exampleWorld1)"
    by (simp add: ensureClient_def opts exampleOptions equalTo_def exampleWorld1)
  moreover have "clientObject exampleConfig (Some exampleKey) ''jetstack-cert-manager'' \<noteq>
     clientObject exampleConfig (Some exampleKey') ''jetstack-cert-manager''"
    by (simp add: clientObject_def exampleKey_def exampleKey'_def)
  ultimately show ?thesis
    by (simp add: GetClient_def exampleWorld1)
qed

text \<open>
  C3, amended. In a state that satisfies the invariant, after a call of
  \<^verbatim>\<open>ensureClient\<close> that returns, \<^verbatim>\<open>GetClient\<close> returns, without an error, an
  allocated client that \<^verbatim>\<open>NewClient\<close> built from the configuration of the call
  and a key with the encoded modulus and the exponent of the key of the call; when
  the call found no entry with its options, the client is built from the key of
  the call itself.
\<close>

theorem GetClient_after_ensureClient:
  "registry_invariant w \<and> ensureClient uid config privateKey w = (Inr (), w') \<longrightarrow>
     (\<exists>a k k' ua.
        privateKey = Some k \<and>
        GetClient uid w' = Inr a \<and>
        a < length (acmeClients w') \<and>
        acmeClients w' ! a = clientObject config (Some k') ua \<and>
        GobEncode (N k') = GobEncode (N k) \<and> E k' = E k \<and>
        ((\<forall>meta. clients w uid = Some meta \<longrightarrow>
            newStableOptions uid config privateKey \<noteq> Inr (stableOptions meta)) \<longrightarrow>
         k' = k \<and> ua = CertManagerUserAgent w))"
proof
  assume asm: "registry_invariant w \<and> ensureClient uid config privateKey w = (Inr (), w')"
  then obtain newOpts where opts: "newStableOptions uid config privateKey = Inr newOpts"
    by (cases "newStableOptions uid config privateKey") (auto simp: ensureClient_panic)
  then obtain k where k: "privateKey = Some k"
    by (cases privateKey) (auto simp: newStableOptions_def)
  show "\<exists>a k k' ua.
        privateKey = Some k \<and>
        GetClient uid w' = Inr a \<and>
        a < length (acmeClients w') \<and>
        acmeClients w' ! a = clientObject config (Some k') ua \<and>
        GobEncode (N k') = GobEncode (N k) \<and> E k' = E k \<and>
        ((\<forall>meta. clients w uid = Some meta \<longrightarrow>
            newStableOptions uid config privateKey \<noteq> Inr (stableOptions meta)) \<longrightarrow>
         k' = k \<and> ua = CertManagerUserAgent w)"
  proof (cases "stored w uid newOpts")
    case True
    with opts asm have same: "w' = w" by (simp add: ensureClient_fast)
    from True obtain meta where meta: "clients w uid = Some meta" "stableOptions meta = newOpts"
      by (auto simp: stored_def)
    from asm meta(1) obtain config0 :: ACMEIssuer and key0 ua
      where alloc: "Interface meta < length (acmeClients w)"
        and obj: "acmeClients w ! Interface meta = clientObject config0 key0 ua"
        and opts0: "newStableOptions uid config0 key0 = Inr (stableOptions meta)"
      unfolding registry_invariant_def by blast
    from opts0 obtain k' where k': "key0 = Some k'"
      by (cases key0) (auto simp: newStableOptions_def)
    from opts opts0 meta(2) k k'
    have eq: "Server config0 = Server config" "SkipTLSVerify config0 = SkipTLSVerify config"
      "GobEncode (N k') = GobEncode (N k)" "E k' = E k"
      by (auto simp: newStableOptions_def)
    have "clientObject config0 (Some k') ua = clientObject config (Some k') ua"
      by (simp add: clientObject_def eq)
    with obj k' have "acmeClients w' ! Interface meta = clientObject config (Some k') ua"
      by (simp add: same)
    moreover have "GetClient uid w' = Inr (Interface meta)"
      by (simp add: same GetClient_def meta)
    moreover have "\<not> (\<forall>meta. clients w uid = Some meta \<longrightarrow>
            newStableOptions uid config privateKey \<noteq> Inr (stableOptions meta))"
      using meta opts by auto
    ultimately show ?thesis
      using k alloc eq same by blast
  next
    case False
    with opts asm have w': "w' = rebuilt uid config privateKey newOpts w"
      by (simp add: ensureClient_slow)
    have "GetClient uid w' = Inr (length (acmeClients w))"
      by (simp add: w' rebuilt_def GetClient_def)
    moreover have "length (acmeClients w) < length (acmeClients w')"
      by (simp add: w' rebuilt_def)
    moreover have "acmeClients w' ! length (acmeClients w) =
        clientObject config (Some k) (CertManagerUserAgent w)"
      by (simp add: w' rebuilt_def k)
    ultimately show ?thesis
      using k by blast
  qed
qed

theorem GetClient_after_ensureClient_witness:
  "registry_invariant exampleWorld1 \<and>
   ensureClient ''a'' exampleConfig (Some exampleKey') exampleWorld1 = (Inr (), exampleWorld1) \<and>
   (\<exists>a k k' ua.
      Some exampleKey' = Some k \<and>
      GetClient ''a'' exampleWorld1 = Inr a \<and>
      a < length (acmeClients exampleWorld1) \<and>
      acmeClients exampleWorld1 ! a = clientObject exampleConfig (Some k') ua \<and>
      GobEncode (N k') = GobEncode (N k) \<and> E k' = E k)"
proof -
  have inv: "registry_invariant exampleWorld1"
    unfolding exampleWorld1_def AddClient_def
    by (rule registry_invariant_ensureClient) (rule registry_invariant_emptyWorld)
  have opts: "newStableOptions ''a'' exampleConfig (Some exampleKey') =
      newStableOptions ''a'' exampleConfig (Some exampleKey)"
    by (simp add: newStableOptions_def exampleKey_def exampleKey'_def)
  have call: "ensureClient ''a'' exampleConfig (Some exampleKey') exampleWorld1 =
      (Inr (), exampleWorld1)"
    by (simp add: ensureClient_def opts exampleOptions equalTo_def exampleWorld1)
  show ?thesis
    using GetClient_after_ensureClient
      [of exampleWorld1 "''a''" exampleConfig "Some exampleKey'" exampleWorld1] inv call
    by blast
qed

text \<open>
  C4. The invariant holds for a new registry, every call keeps it, and so it
  holds after every sequence of calls on a new registry: the map holds one entry
  for a UID, and the options of an entry are the options of the inputs its client
  was built from.
\<close>

theorem registry_invariant_reachable:
  "registry_invariant (NewDefaultRegistry w) \<and>
   (registry_invariant w \<longrightarrow> registry_invariant (perform c w)) \<and>
   registry_invariant (calls cs (NewDefaultRegistry w))"
  by (simp add: registry_invariant_NewDefaultRegistry registry_invariant_perform
      registry_invariant_calls)

theorem registry_invariant_reachable_witness:
  "registry_invariant exampleWorld1 \<and>
   registry_invariant (perform (CallAddClient ''a'' exampleConfig' (Some exampleKey)) exampleWorld1) \<and>
   registry_invariant
     (calls [CallAddClient ''a'' exampleConfig (Some exampleKey), CallListClients,
             CallRemoveClient ''b'', CallGetClient ''a'']
        (NewDefaultRegistry exampleWorld1)) \<and>
   clients
     (calls [CallAddClient ''a'' exampleConfig (Some exampleKey), CallListClients,
             CallRemoveClient ''b'', CallGetClient ''a'']
        (NewDefaultRegistry exampleWorld1)) ''a'' =
     Some \<lparr>Interface = 1, stableOptions =
         \<lparr>serverURL = ''https://acme.example/directory'', skipVerifyTLS = False,
          issuerUID = ''a'', publicKey = map char_of [2, 12, 161 :: nat], exponent = 17\<rparr>\<rparr>"
proof -
  have inv: "registry_invariant exampleWorld1"
    unfolding exampleWorld1_def AddClient_def
    by (rule registry_invariant_ensureClient) (rule registry_invariant_emptyWorld)
  have entry: "clients
     (calls [CallAddClient ''a'' exampleConfig (Some exampleKey), CallListClients,
             CallRemoveClient ''b'', CallGetClient ''a'']
        (NewDefaultRegistry exampleWorld1)) ''a'' =
     Some \<lparr>Interface = 1, stableOptions =
         \<lparr>serverURL = ''https://acme.example/directory'', skipVerifyTLS = False,
          issuerUID = ''a'', publicKey = map char_of [2, 12, 161 :: nat], exponent = 17\<rparr>\<rparr>"
    by (simp add: NewDefaultRegistry_def exampleWorld1 AddClient_def ensureClient_def
        exampleOptions NewClient_def ListClients_def RemoveClient_def)
  show ?thesis
    using registry_invariant_reachable
      [of exampleWorld1 "CallAddClient ''a'' exampleConfig' (Some exampleKey)"
        "[CallAddClient ''a'' exampleConfig (Some exampleKey), CallListClients,
          CallRemoveClient ''b'', CallGetClient ''a'']"]
      inv entry
    by simp
qed

text \<open>
  C5. \<^verbatim>\<open>GetClient\<close> returns \<^verbatim>\<open>ErrNotFound\<close> exactly when the registry holds
  no entry for the UID, and the client of the entry otherwise; it returns no other
  error, and \<^verbatim>\<open>ErrNotFound\<close> is not the panic. After a sequence of calls on a
  new registry none of which is \<^verbatim>\<open>AddClient\<close> for the UID, it returns
  \<^verbatim>\<open>ErrNotFound\<close>.
\<close>

theorem GetClient_ErrNotFound_iff:
  "(GetClient uid w = Inl ErrNotFound \<longleftrightarrow> clients w uid = None) \<and>
   (\<forall>meta. clients w uid = Some meta \<longrightarrow> GetClient uid w = Inr (Interface meta)) \<and>
   (\<forall>e. GetClient uid w = Inl e \<longrightarrow> e = ErrNotFound) \<and>
   ErrNotFound \<noteq> NilPointerDereference \<and>
   ((\<forall>config privateKey. CallAddClient uid config privateKey \<notin> set cs) \<longrightarrow>
      GetClient uid (calls cs (NewDefaultRegistry w)) = Inl ErrNotFound)"
proof (intro conjI impI)
  assume "\<forall>config privateKey. CallAddClient uid config privateKey \<notin> set cs"
  then have "clients (calls cs (NewDefaultRegistry w)) uid = None"
    by (intro calls_clients_None) (simp_all add: NewDefaultRegistry_def)
  then show "GetClient uid (calls cs (NewDefaultRegistry w)) = Inl ErrNotFound"
    by (simp add: GetClient_def)
qed (auto simp: GetClient_def split: option.splits)

theorem GetClient_ErrNotFound_iff_witness:
  "clients exampleWorld1 ''a'' =
     Some \<lparr>Interface = 0, stableOptions =
         \<lparr>serverURL = ''https://acme.example/directory'', skipVerifyTLS = False,
          issuerUID = ''a'', publicKey = map char_of [2, 12, 161 :: nat], exponent = 17\<rparr>\<rparr> \<and>
   GetClient ''a'' exampleWorld1 = Inr 0 \<and>
   GetClient ''b'' exampleWorld1 = Inl ErrNotFound \<and>
   GetClient ''b''
     (calls [CallAddClient ''a'' exampleConfig (Some exampleKey), CallRemoveClient ''b'']
        (NewDefaultRegistry exampleWorld1)) = Inl ErrNotFound"
proof -
  have entry: "clients exampleWorld1 ''a'' =
     Some \<lparr>Interface = 0, stableOptions =
         \<lparr>serverURL = ''https://acme.example/directory'', skipVerifyTLS = False,
          issuerUID = ''a'', publicKey = map char_of [2, 12, 161 :: nat], exponent = 17\<rparr>\<rparr>"
    by (simp add: exampleWorld1)
  have none: "clients exampleWorld1 ''b'' = None"
    by (simp add: exampleWorld1)
  have never: "\<forall>config privateKey. CallAddClient ''b'' config privateKey \<notin>
      set [CallAddClient ''a'' exampleConfig (Some exampleKey), CallRemoveClient ''b'']"
    by simp
  show ?thesis
    using GetClient_ErrNotFound_iff
      [of "''a''" exampleWorld1 "[] :: unit call list"]
      GetClient_ErrNotFound_iff
      [of "''b''" exampleWorld1
        "[CallAddClient ''a'' exampleConfig (Some exampleKey), CallRemoveClient ''b'']"]
      entry none never
    by simp
qed

text \<open>
  C6. A call of \<^verbatim>\<open>ensureClient\<close> that fails leaves the state as it was, and
  the caller of \<^verbatim>\<open>AddClient\<close> sees the failure: the panic of computing the
  options from a nil key. \<^verbatim>\<open>NewClient\<close> has no way to fail.
\<close>

theorem ensureClient_failure_no_change:
  "(ensureClient uid config privateKey w = (Inl e, w') \<longrightarrow>
      w' = w \<and> AddClient uid config privateKey w = (Inl e, w)) \<and>
   (newStableOptions uid config privateKey = Inl e \<longrightarrow>
      AddClient uid config privateKey w = (Inl e, w))"
proof (intro conjI impI)
  assume fails: "ensureClient uid config privateKey w = (Inl e, w')"
  show "w' = w"
  proof (cases "newStableOptions uid config privateKey")
    case (Inl e')
    with fails show ?thesis by (simp add: ensureClient_panic)
  next
    case (Inr newOpts)
    with fails show ?thesis
      by (cases "stored w uid newOpts") (simp_all add: ensureClient_fast ensureClient_slow)
  qed
  with fails show "AddClient uid config privateKey w = (Inl e, w)"
    by (simp add: AddClient_def)
next
  assume "newStableOptions uid config privateKey = Inl e"
  then show "AddClient uid config privateKey w = (Inl e, w)"
    by (simp add: AddClient_def ensureClient_panic)
qed

theorem ensureClient_failure_no_change_witness:
  "newStableOptions ''a'' exampleConfig' None = Inl NilPointerDereference \<and>
   ensureClient ''a'' exampleConfig' None exampleWorld1 =
     (Inl NilPointerDereference, exampleWorld1) \<and>
   AddClient ''a'' exampleConfig' None exampleWorld1 =
     (Inl NilPointerDereference, exampleWorld1) \<and>
   GetClient ''a'' exampleWorld1 = Inr 0"
proof -
  have opts: "newStableOptions ''a'' exampleConfig' None = Inl NilPointerDereference"
    by (simp add: newStableOptions_def)
  have fails: "ensureClient ''a'' exampleConfig' None exampleWorld1 =
     (Inl NilPointerDereference, exampleWorld1)"
    by (simp add: ensureClient_def newStableOptions_def)
  have old: "GetClient ''a'' exampleWorld1 = Inr 0"
    by (simp add: GetClient_def exampleWorld1)
  show ?thesis
    using ensureClient_failure_no_change
      [of "''a''" exampleConfig' None exampleWorld1 NilPointerDereference exampleWorld1]
      opts fails old
    by simp
qed

text \<open>
  C7. \<^verbatim>\<open>RemoveClient\<close> for a UID without an entry changes nothing, after
  \<^verbatim>\<open>RemoveClient\<close> the method \<^verbatim>\<open>GetClient\<close> returns \<^verbatim>\<open>ErrNotFound\<close> for the
  UID, and a second \<^verbatim>\<open>RemoveClient\<close> changes nothing. The method has no result
  and no way to fail.
\<close>

theorem RemoveClient_idempotent:
  "(clients w uid = None \<longrightarrow> RemoveClient uid w = w) \<and>
   GetClient uid (RemoveClient uid w) = Inl ErrNotFound \<and>
   RemoveClient uid (RemoveClient uid w) = RemoveClient uid w"
  by (simp add: RemoveClient_def GetClient_def split: option.splits)

theorem RemoveClient_idempotent_witness:
  "clients exampleWorld1 ''b'' = None \<and>
   RemoveClient ''b'' exampleWorld1 = exampleWorld1 \<and>
   GetClient ''a'' exampleWorld1 = Inr 0 \<and>
   GetClient ''a'' (RemoveClient ''a'' exampleWorld1) = Inl ErrNotFound"
proof -
  have none: "clients exampleWorld1 ''b'' = None"
    by (simp add: exampleWorld1)
  have old: "GetClient ''a'' exampleWorld1 = Inr 0"
    by (simp add: GetClient_def exampleWorld1)
  show ?thesis
    using RemoveClient_idempotent [of exampleWorld1 "''b''"]
      RemoveClient_idempotent [of exampleWorld1 "''a''"] none old
    by simp
qed

text \<open>
  C8. \<^verbatim>\<open>ListClients\<close> returns a newly allocated map that holds the client of
  every entry of the registry and nothing else, and leaves the registry and the
  earlier maps as they are. Writing to the returned map changes neither the
  entries of the registry nor what \<^verbatim>\<open>GetClient\<close> returns, and no later call
  of a method of the registry changes the returned map.
\<close>

theorem ListClients_snapshot:
  "ListClients w = (p, w') \<longrightarrow>
     p = length (ifaceMaps w) \<and>
     ifaceMaps w' = ifaceMaps w @ [\<lambda>uid. map_option Interface (clients w uid)] \<and>
     (\<forall>uid. (ifaceMaps w' ! p) uid =
        (case GetClient uid w of Inr a \<Rightarrow> Some a | Inl e \<Rightarrow> None)) \<and>
     clients w' = clients w \<and> acmeClients w' = acmeClients w \<and>
     (\<forall>m uid.
        clients (w'\<lparr>ifaceMaps := (ifaceMaps w')[p := m]\<rparr>) = clients w' \<and>
        GetClient uid (w'\<lparr>ifaceMaps := (ifaceMaps w')[p := m]\<rparr>) = GetClient uid w') \<and>
     (\<forall>cs. p < length (ifaceMaps (calls cs w')) \<and>
        ifaceMaps (calls cs w') ! p = ifaceMaps w' ! p)"
proof
  assume "ListClients w = (p, w')"
  then have p: "p = length (ifaceMaps w)"
    and w': "w' = w\<lparr>ifaceMaps := ifaceMaps w @ [\<lambda>uid. map_option Interface (clients w uid)]\<rparr>"
    by (simp_all add: ListClients_def)
  have alloc: "p < length (ifaceMaps w')"
    by (simp add: p w')
  have later: "\<forall>cs. p < length (ifaceMaps (calls cs w')) \<and>
        ifaceMaps (calls cs w') ! p = ifaceMaps w' ! p"
    using calls_ifaceMaps [OF alloc] by blast
  have pairs: "\<forall>uid. (ifaceMaps w' ! p) uid =
        (case GetClient uid w of Inr a \<Rightarrow> Some a | Inl e \<Rightarrow> None)"
    by (simp add: p w' GetClient_def split: option.splits)
  have writes: "\<forall>m uid.
        clients (w'\<lparr>ifaceMaps := (ifaceMaps w')[p := m]\<rparr>) = clients w' \<and>
        GetClient uid (w'\<lparr>ifaceMaps := (ifaceMaps w')[p := m]\<rparr>) = GetClient uid w'"
    by (simp add: GetClient_def)
  show "p = length (ifaceMaps w) \<and>
     ifaceMaps w' = ifaceMaps w @ [\<lambda>uid. map_option Interface (clients w uid)] \<and>
     (\<forall>uid. (ifaceMaps w' ! p) uid =
        (case GetClient uid w of Inr a \<Rightarrow> Some a | Inl e \<Rightarrow> None)) \<and>
     clients w' = clients w \<and> acmeClients w' = acmeClients w \<and>
     (\<forall>m uid.
        clients (w'\<lparr>ifaceMaps := (ifaceMaps w')[p := m]\<rparr>) = clients w' \<and>
        GetClient uid (w'\<lparr>ifaceMaps := (ifaceMaps w')[p := m]\<rparr>) = GetClient uid w') \<and>
     (\<forall>cs. p < length (ifaceMaps (calls cs w')) \<and>
        ifaceMaps (calls cs w') ! p = ifaceMaps w' ! p)"
    using p pairs writes later by (simp add: w')
qed

theorem ListClients_snapshot_witness:
  "ListClients exampleWorld1 = (0, snd (ListClients exampleWorld1)) \<and>
   (ifaceMaps (snd (ListClients exampleWorld1)) ! 0) ''a'' = Some 0 \<and>
   (ifaceMaps (snd (ListClients exampleWorld1)) ! 0) ''b'' = None \<and>
   GetClient ''a''
     (snd (ListClients exampleWorld1)
        \<lparr>ifaceMaps := (ifaceMaps (snd (ListClients exampleWorld1)))[0 := Map.empty]\<rparr>) = Inr 0 \<and>
   (ifaceMaps
      (calls [CallRemoveClient ''a'', CallAddClient ''b'' exampleConfig (Some exampleKey)]
         (snd (ListClients exampleWorld1))) ! 0) ''a'' = Some 0"
proof -
  let ?w' = "snd (ListClients exampleWorld1)"
  have call: "ListClients exampleWorld1 = (0, ?w')"
    by (simp add: ListClients_def exampleWorld1)
  have get: "GetClient ''a'' exampleWorld1 = Inr 0"
    "GetClient ''b'' exampleWorld1 = Inl ErrNotFound"
    by (simp_all add: GetClient_def exampleWorld1)
  have same: "GetClient ''a'' ?w' = Inr 0"
    by (simp add: GetClient_def ListClients_def exampleWorld1)
  from ListClients_snapshot [of exampleWorld1 0 ?w'] call
  have pairs: "\<forall>uid. (ifaceMaps ?w' ! 0) uid =
        (case GetClient uid exampleWorld1 of Inr a \<Rightarrow> Some a | Inl e \<Rightarrow> None)"
    and writes: "\<forall>m uid.
        clients (?w'\<lparr>ifaceMaps := (ifaceMaps ?w')[0 := m]\<rparr>) = clients ?w' \<and>
        GetClient uid (?w'\<lparr>ifaceMaps := (ifaceMaps ?w')[0 := m]\<rparr>) = GetClient uid ?w'"
    and later: "\<forall>cs :: unit call list. 0 < length (ifaceMaps (calls cs ?w')) \<and>
        ifaceMaps (calls cs ?w') ! 0 = ifaceMaps ?w' ! 0"
    by blast+
  from pairs get have a: "(ifaceMaps ?w' ! 0) ''a'' = Some 0"
    and b: "(ifaceMaps ?w' ! 0) ''b'' = None"
    by simp_all
  from writes same
  have c: "GetClient ''a'' (?w'\<lparr>ifaceMaps := (ifaceMaps ?w')[0 := Map.empty]\<rparr>) = Inr 0"
    by simp
  from later a
  have d: "(ifaceMaps
      (calls [CallRemoveClient ''a'', CallAddClient ''b'' exampleConfig (Some exampleKey)]
         ?w') ! 0) ''a'' = Some 0"
    by metis
  from call a b c d show ?thesis by blast
qed

text \<open>
  C9. Threads that call \<^verbatim>\<open>ensureClient\<close> with the same arguments, their
  statements interleaved in any order: at every moment the lock is held exactly
  when one thread is between \<^verbatim>\<open>Lock\<close> and \<^verbatim>\<open>Unlock\<close>, and no two threads
  are. Once all the threads, at least one, have returned, the state is the state
  after one call: with a key that is not nil and no entry with the options of the call
  before, one client has been built and the registry holds the one entry made of
  it. And there is an interleaving in which all threads return.
\<close>

theorem ensureClient_concurrent:
  "(interleave uid config privateKey ts (False, w, replicate n AtLock) = (locked', w', pcs') \<longrightarrow>
      (locked' \<longleftrightarrow> (\<exists>t < length pcs'. critical (pcs' ! t))) \<and>
      (\<forall>t t'. t < length pcs' \<and> t' < length pcs' \<and>
         critical (pcs' ! t) \<and> critical (pcs' ! t') \<longrightarrow> t = t')) \<and>
   (interleave uid config privateKey ts (False, w, replicate n AtLock) = (locked', w', pcs') \<and>
    0 < n \<and> (\<forall>pc \<in> set pcs'. returned pc) \<longrightarrow>
      \<not> locked' \<and>
      w' = snd (ensureClient uid config privateKey w) \<and>
      (\<forall>pc \<in> set pcs'. pc = Returned (fst (ensureClient uid config privateKey w))) \<and>
      (\<forall>newOpts. newStableOptions uid config privateKey = Inr newOpts \<and>
         \<not> stored w uid newOpts \<longrightarrow>
         acmeClients w' =
           acmeClients w @ [clientObject config privateKey (CertManagerUserAgent w)] \<and>
         clients w' = (clients w)(uid \<mapsto>
           \<lparr>Interface = length (acmeClients w), stableOptions = newOpts\<rparr>))) \<and>
   (\<exists>ts'. \<forall>pc \<in> set (snd (snd (interleave uid config privateKey ts'
       (False, w, replicate n AtLock)))). returned pc)"
proof (intro conjI impI)
  assume run: "interleave uid config privateKey ts (False, w, replicate n AtLock) =
      (locked', w', pcs')"
  have "system_invariant uid config privateKey w
      (interleave uid config privateKey ts (False, w, replicate n AtLock))"
    by (rule interleave_invariant) (rule system_invariant_initial)
  with run have "system_invariant uid config privateKey w (locked', w', pcs')"
    by simp
  from system_invariant_exclusion [OF this]
  show "locked' \<longleftrightarrow> (\<exists>t < length pcs'. critical (pcs' ! t))"
    and "\<forall>t t'. t < length pcs' \<and> t' < length pcs' \<and>
         critical (pcs' ! t) \<and> critical (pcs' ! t') \<longrightarrow> t = t'"
    by blast+
next
  assume asm: "interleave uid config privateKey ts (False, w, replicate n AtLock) =
      (locked', w', pcs') \<and> 0 < n \<and> (\<forall>pc \<in> set pcs'. returned pc)"
  have "system_invariant uid config privateKey w
      (interleave uid config privateKey ts (False, w, replicate n AtLock))"
    by (rule interleave_invariant) (rule system_invariant_initial)
  with asm have inv: "system_invariant uid config privateKey w (locked', w', pcs')"
    by simp
  from interleave_length [of uid config privateKey ts "(False, w, replicate n AtLock)"] asm
  have "pcs' \<noteq> []"
    by auto
  from system_invariant_final [OF inv _ this] asm
  have final: "\<not> locked'" "w' = snd (ensureClient uid config privateKey w)"
    "\<forall>pc \<in> set pcs'. pc = Returned (fst (ensureClient uid config privateKey w))"
    by blast+
  show "\<not> locked'" "w' = snd (ensureClient uid config privateKey w)"
    "\<forall>pc \<in> set pcs'. pc = Returned (fst (ensureClient uid config privateKey w))"
    by (rule final)+
  show "\<forall>newOpts. newStableOptions uid config privateKey = Inr newOpts \<and>
         \<not> stored w uid newOpts \<longrightarrow>
         acmeClients w' =
           acmeClients w @ [clientObject config privateKey (CertManagerUserAgent w)] \<and>
         clients w' = (clients w)(uid \<mapsto>
           \<lparr>Interface = length (acmeClients w), stableOptions = newOpts\<rparr>)"
    by (simp add: final(2) ensureClient_slow rebuilt_def)
next
  show "\<exists>ts'. \<forall>pc \<in> set (snd (snd (interleave uid config privateKey ts'
       (False, w, replicate n AtLock)))). returned pc"
    by (rule interleave_completes)
qed

theorem ensureClient_concurrent_witness:
  "interleave ''a'' exampleConfig (Some exampleKey) [0, 1, 0, 1, 0, 0, 0, 0, 1, 1, 1, 1]
     (False, emptyWorld, replicate 2 AtLock) =
     (False, exampleWorld1, [Returned (Inr ()), Returned (Inr ())]) \<and>
   newStableOptions ''a'' exampleConfig (Some exampleKey) =
     Inr (stableOptions (the (clients exampleWorld1 ''a''))) \<and>
   \<not> stored emptyWorld ''a'' (stableOptions (the (clients exampleWorld1 ''a''))) \<and>
   acmeClients exampleWorld1 =
     acmeClients emptyWorld @
       [clientObject exampleConfig (Some exampleKey) (CertManagerUserAgent emptyWorld)] \<and>
   interleave ''a'' exampleConfig (Some exampleKey) [0, 1, 0, 1, 0, 0]
     (False, emptyWorld, replicate 2 AtLock) =
     (True,
      emptyWorld\<lparr>acmeClients :=
        [clientObject exampleConfig (Some exampleKey) ''jetstack-cert-manager'']\<rparr>,
      [AtStore 0 (stableOptions (the (clients exampleWorld1 ''a''))), AtLock]) \<and>
   critical (AtStore 0 (stableOptions (the (clients exampleWorld1 ''a''))))"
proof -
  let ?opts = "stableOptions (the (clients exampleWorld1 ''a''))"
  have two: "replicate 2 AtLock = [AtLock, AtLock]"
    by (simp add: eval_nat_numeral)
  have opts: "newStableOptions ''a'' exampleConfig (Some exampleKey) = Inr ?opts"
    by (simp add: exampleWorld1 exampleOptions)
  have new: "\<not> stored emptyWorld ''a'' ?opts"
    by (simp add: stored_def emptyWorld_def)
  have run: "interleave ''a'' exampleConfig (Some exampleKey)
       [0, 1, 0, 1, 0, 0, 0, 0, 1, 1, 1, 1] (False, emptyWorld, replicate 2 AtLock) =
     (False, exampleWorld1, [Returned (Inr ()), Returned (Inr ())])"
    by (simp add: two exampleOptions exampleWorld1 NewClient_def emptyWorld_def equalTo_def)
  have part: "interleave ''a'' exampleConfig (Some exampleKey) [0, 1, 0, 1, 0, 0]
     (False, emptyWorld, replicate 2 AtLock) =
     (True,
      emptyWorld\<lparr>acmeClients :=
        [clientObject exampleConfig (Some exampleKey) ''jetstack-cert-manager'']\<rparr>,
      [AtStore 0 ?opts, AtLock])"
    by (simp add: two exampleOptions exampleWorld1 NewClient_def emptyWorld_def equalTo_def)
  have returned: "\<forall>pc \<in> set [Returned (Inr ()), Returned (Inr ())]. returned pc"
    by simp
  from ensureClient_concurrent
    [of "''a''" exampleConfig "Some exampleKey" "[0, 1, 0, 1, 0, 0, 0, 0, 1, 1, 1, 1]"
      emptyWorld 2 False exampleWorld1 "[Returned (Inr ()), Returned (Inr ())]"]
    run returned opts new
  have built: "acmeClients exampleWorld1 =
     acmeClients emptyWorld @
       [clientObject exampleConfig (Some exampleKey) (CertManagerUserAgent emptyWorld)]"
    by simp
  from ensureClient_concurrent
    [of "''a''" exampleConfig "Some exampleKey" "[0, 1, 0, 1, 0, 0]" emptyWorld 2 True
      "emptyWorld\<lparr>acmeClients :=
        [clientObject exampleConfig (Some exampleKey) ''jetstack-cert-manager'']\<rparr>"
      "[AtStore 0 ?opts, AtLock]"]
    part
  have "critical (AtStore 0 ?opts)"
    by simp
  with run opts new built part show ?thesis
    by blast
qed

text \<open>
  C10. \<^verbatim>\<open>AddClient\<close> does not look at the UID: called with the empty string
  and a key that is not nil, it returns, the registry holds an entry under the
  empty string, and \<^verbatim>\<open>GetClient\<close> for the empty string returns the client of
  that entry, which is the newly built client when there was no entry before.
\<close>

theorem AddClient_empty_uid:
  "fst (AddClient '''' config (Some k) w) = Inr () \<and>
   (\<exists>meta. clients (snd (AddClient '''' config (Some k) w)) '''' = Some meta \<and>
      issuerUID (stableOptions meta) = '''' \<and>
      GetClient '''' (snd (AddClient '''' config (Some k) w)) = Inr (Interface meta)) \<and>
   (clients w '''' = None \<longrightarrow>
      GetClient '''' (snd (AddClient '''' config (Some k) w)) = Inr (length (acmeClients w)) \<and>
      acmeClients (snd (AddClient '''' config (Some k) w)) =
        acmeClients w @ [clientObject config (Some k) (CertManagerUserAgent w)])"
proof -
  let ?opts = "\<lparr>serverURL = Server config, skipVerifyTLS = SkipTLSVerify config,
      issuerUID = '''', publicKey = GobEncode (N k), exponent = E k\<rparr>"
  have opts: "newStableOptions '''' config (Some k) = Inr ?opts"
    by (simp add: newStableOptions_def)
  show ?thesis
  proof (cases "stored w '''' ?opts")
    case True
    then have "clients w '''' \<noteq> None"
      by (auto simp: stored_def)
    with True opts show ?thesis
      by (auto simp: AddClient_def ensureClient_fast stored_def GetClient_def)
  next
    case False
    with opts show ?thesis
      by (simp add: AddClient_def ensureClient_slow rebuilt_def GetClient_def)
  qed
qed

theorem AddClient_empty_uid_witness:
  "clients emptyWorld '''' = None \<and>
   fst (AddClient '''' exampleConfig (Some exampleKey) emptyWorld) = Inr () \<and>
   GetClient '''' (snd (AddClient '''' exampleConfig (Some exampleKey) emptyWorld)) = Inr 0 \<and>
   acmeClients (snd (AddClient '''' exampleConfig (Some exampleKey) emptyWorld)) =
     [clientObject exampleConfig (Some exampleKey) ''jetstack-cert-manager'']"
proof -
  have none: "clients emptyWorld '''' = None"
    by (simp add: emptyWorld_def)
  have "acmeClients emptyWorld = []" "CertManagerUserAgent emptyWorld = ''jetstack-cert-manager''"
    by (simp_all add: emptyWorld_def)
  with none show ?thesis
    using AddClient_empty_uid [of exampleConfig exampleKey emptyWorld]
    by simp
qed

end
